theory Spec2Isabelle
  imports Complex_Main "HOL-Library.Sublist"
begin

section \<open>The entity graph of fers.py\<close>

text \<open>
  The classes \<^verbatim>\<open>Node\<close>, \<^verbatim>\<open>Member\<close>, \<^verbatim>\<open>MemberSet\<close>, \<^verbatim>\<open>Section\<close> are imported by
  \<^verbatim>\<open>fers.py\<close> and are not among the sources. Their attributes are read off the uses in
  \<^verbatim>\<open>fers.py\<close>: every field below is an attribute that \<^verbatim>\<open>fers.py\<close> reads or a
  constructor argument that it passes. Coordinates are Python numbers; they are taken as
  real numbers. A reference to a shared object that \<^verbatim>\<open>fers.py\<close> never looks into
  (a nodal support, a hinge) is the id of that object.
\<close>

record cross_section =
  section_name :: string
  material :: string

record node =
  node_id :: nat
  X :: real
  Y :: real
  Z :: real
  nodal_support :: "nat option"
  node_classification :: "string option"

text \<open>
  \<^verbatim>\<open>reference_member\<close> refers to another \<^verbatim>\<open>Member\<close> object. A \<^verbatim>\<open>Member\<close> is
  hashed and compared by object identity, and every \<^verbatim>\<open>Member\<close> object has an id of its
  own, so the reference is held as the id of the member referred to.
\<close>

record member =
  member_id :: nat
  start_node :: node
  end_node :: node
  member_section :: cross_section
  member_material :: "string option"
  start_hinge :: "nat option"
  end_hinge :: "nat option"
  member_classification :: string
  rotation_angle :: "real option"
  chi :: "real option"
  reference_member :: "nat option"
  reference_node :: "node option"

record member_set =
  member_set_id :: nat
  members :: "member list"
  classification :: string
  L_y :: "real option"
  L_z :: "real option"

text \<open>
  \<^verbatim>\<open>class FERS\<close>. Load cases, load combinations and imperfection cases are lists of
  objects that the functions below never look into; they are held by id.
\<close>

record fers =
  member_sets :: "member_set list"
  load_cases :: "nat list"
  load_combinations :: "nat list"
  imperfection_cases :: "nat list"
  analysis_options :: "nat option"
  results :: "nat option"

definition FERS :: fers where
  \<comment> \<open>\<^verbatim>\<open>FERS.__init__\<close>\<close>
  "FERS = \<lparr>member_sets = [], load_cases = [], load_combinations = [],
     imperfection_cases = [], analysis_options = None, results = None\<rparr>"

definition add_member_set :: "fers \<Rightarrow> member_set list \<Rightarrow> fers" where
  \<comment> \<open>\<^verbatim>\<open>add_member_set(self, *member_sets)\<close>: appends each argument in turn.\<close>
  "add_member_set self mss = fold (\<lambda>ms m. m\<lparr>member_sets := member_sets m @ [ms]\<rparr>) mss self"

definition get_all_member_sets :: "fers \<Rightarrow> member_set list" where
  "get_all_member_sets self = member_sets self"

subsection \<open>Enumeration without duplicates\<close>

text \<open>
  \<^verbatim>\<open>get_all_members\<close>: the two nested loops, with the list \<^verbatim>\<open>members\<close> and the set
  \<^verbatim>\<open>member_ids\<close> as the loop state.
\<close>

definition members_step :: "member \<Rightarrow> member list \<times> nat set \<Rightarrow> member list \<times> nat set" where
  "members_step m acc =
     (case acc of (ms, ids) \<Rightarrow>
        if member_id m \<notin> ids then (ms @ [m], insert (member_id m) ids) else (ms, ids))"

definition get_all_members :: "fers \<Rightarrow> member list" where
  "get_all_members self =
     fst (fold (\<lambda>ms acc. fold members_step (members ms) acc) (member_sets self) ([], {}))"

text \<open>
  \<^verbatim>\<open>get_all_nodes\<close>: per member, first the start node, then the end node, each against
  the set \<^verbatim>\<open>node_ids\<close> as it stands at that moment.
\<close>

definition node_step :: "node \<Rightarrow> node list \<times> nat set \<Rightarrow> node list \<times> nat set" where
  "node_step n acc =
     (case acc of (ns, ids) \<Rightarrow>
        if node_id n \<notin> ids then (ns @ [n], insert (node_id n) ids) else (ns, ids))"

definition nodes_step :: "member \<Rightarrow> node list \<times> nat set \<Rightarrow> node list \<times> nat set" where
  "nodes_step m acc = node_step (end_node m) (node_step (start_node m) acc)"

definition get_all_nodes :: "fers \<Rightarrow> node list" where
  "get_all_nodes self =
     fst (fold (\<lambda>ms acc. fold nodes_step (members ms) acc) (member_sets self) ([], {}))"

text \<open>
  The walks that the two enumerations make, and what "each id once, in first-seen order"
  means for a walk: an element stays when no earlier element of the walk has its id.
\<close>

definition member_walk :: "fers \<Rightarrow> member list" where
  "member_walk self = concat (map members (member_sets self))"

definition node_walk :: "fers \<Rightarrow> node list" where
  "node_walk self = concat (map (\<lambda>m. [start_node m, end_node m]) (member_walk self))"

fun first_seen :: "('a \<Rightarrow> nat) \<Rightarrow> nat set \<Rightarrow> 'a list \<Rightarrow> 'a list" where
  "first_seen key seen [] = []"
| "first_seen key seen (x # xs) =
     (if key x \<in> seen then first_seen key seen xs
      else x # first_seen key (insert (key x) seen) xs)"

subsection \<open>Object creation\<close>

text \<open>
  Python exceptions that the functions below can raise: a failed dictionary lookup with a
  tuple key or with an id as key, an index into an empty list, and an error of the
  regular-expression compiler.
\<close>

datatype error = KeyError_tuple "real list" | KeyError_id nat | IndexError | re_error string

record counters =
  node_counter :: nat
  member_counter :: nat
  member_set_counter :: nat

text \<open>
  Modelled from the spec: the constructors of \<^verbatim>\<open>Node\<close>, \<^verbatim>\<open>Member\<close> and
  \<^verbatim>\<open>MemberSet\<close> are not among the sources. Spec 3 and 4.3: an object's id is "unique",
  taken from a "process-wide monotonic counter" and "assigned at construction time"; a
  node's nodal support and classification are "optional". A constructor therefore stores
  its arguments, takes the id from the counter of its class and advances that counter.
  A keyword argument that a call site of \<^verbatim>\<open>fers.py\<close> leaves out is given here as
  \<open>None\<close>, except for the buckling lengths of a \<^verbatim>\<open>MemberSet\<close>, whose default values
  the sources do not show: they are the parameters \<open>default_L_y\<close> and \<open>default_L_z\<close>.
  A \<^verbatim>\<open>MemberSet\<close> built with an explicit \<^verbatim>\<open>member_set_id\<close> stores that id.
\<close>

record memberset_defaults =
  default_L_y :: "real option"
  default_L_z :: "real option"

definition Node ::
  "real \<Rightarrow> real \<Rightarrow> real \<Rightarrow> nat option \<Rightarrow> string option \<Rightarrow> counters \<Rightarrow> node \<times> counters" where
  \<comment> \<open>Modelled from the spec: \<^verbatim>\<open>Node.__init__\<close>, missing from the sources; the id comes from
      the node counter.\<close>
  "Node x y z support cls c =
     (\<lparr>node_id = node_counter c, X = x, Y = y, Z = z, nodal_support = support,
       node_classification = cls\<rparr>,
      c\<lparr>node_counter := Suc (node_counter c)\<rparr>)"

definition Member ::
  "node \<Rightarrow> node \<Rightarrow> cross_section \<Rightarrow> string option \<Rightarrow> nat option \<Rightarrow> nat option \<Rightarrow> string \<Rightarrow>
   real option \<Rightarrow> real option \<Rightarrow> nat option \<Rightarrow> node option \<Rightarrow> counters \<Rightarrow> member \<times> counters" where
  \<comment> \<open>Modelled from the spec: \<^verbatim>\<open>Member.__init__\<close>, missing from the sources; the id comes from
      the member counter.\<close>
  "Member s e sec mat sh eh cls rot ch ref_member ref_node c =
     (\<lparr>member_id = member_counter c, start_node = s, end_node = e, member_section = sec,
       member_material = mat, start_hinge = sh, end_hinge = eh, member_classification = cls,
       rotation_angle = rot, chi = ch, reference_member = ref_member,
       reference_node = ref_node\<rparr>,
      c\<lparr>member_counter := Suc (member_counter c)\<rparr>)"

definition MemberSet ::
  "member list \<Rightarrow> string \<Rightarrow> real option \<Rightarrow> real option \<Rightarrow> nat option \<Rightarrow> counters \<Rightarrow>
   member_set \<times> counters" where
  \<comment> \<open>Modelled from the spec: \<^verbatim>\<open>MemberSet.__init__\<close>, missing from the sources; the id is the
      one given, or else comes from the member set counter.\<close>
  "MemberSet ms cls ly lz given_id c =
     (case given_id of
        Some i \<Rightarrow>
          (\<lparr>member_set_id = i, members = ms, classification = cls, L_y = ly, L_z = lz\<rparr>, c)
      | None \<Rightarrow>
          (\<lparr>member_set_id = member_set_counter c, members = ms, classification = cls,
            L_y = ly, L_z = lz\<rparr>,
           c\<lparr>member_set_counter := Suc (member_set_counter c)\<rparr>))"

subsection \<open>\<^verbatim>\<open>translate_member_set\<close>\<close>

type_synonym vec3 = "real \<times> real \<times> real"

definition v0 :: "vec3 \<Rightarrow> real" where "v0 v = fst v"
definition v1 :: "vec3 \<Rightarrow> real" where "v1 v = fst (snd v)"
definition v2 :: "vec3 \<Rightarrow> real" where "v2 v = snd (snd v)"

definition translate_member :: "vec3 \<Rightarrow> member \<Rightarrow> counters \<Rightarrow> member \<times> counters" where
  \<comment> \<open>The body of the loop: two calls of \<^verbatim>\<open>Node\<close>, then one of \<^verbatim>\<open>Member\<close>.\<close>
  "translate_member translation_vector m c =
     (case Node (X (start_node m) + v0 translation_vector)
                (Y (start_node m) + v1 translation_vector)
                (Z (start_node m) + v2 translation_vector)
                (nodal_support (start_node m)) None c of
        (new_start_node, c1) \<Rightarrow>
     (case Node (X (end_node m) + v0 translation_vector)
                (Y (end_node m) + v1 translation_vector)
                (Z (end_node m) + v2 translation_vector)
                (nodal_support (end_node m)) None c1 of
        (new_end_node, c2) \<Rightarrow>
       Member new_start_node new_end_node (member_section m)
         (Some (material (member_section m))) None None (member_classification m)
         None None None None c2))"

fun translate_members ::
  "vec3 \<Rightarrow> member list \<Rightarrow> member list \<Rightarrow> counters \<Rightarrow> member list \<times> counters" where
  "translate_members v [] new_members c = (new_members, c)"
| "translate_members v (m # ms) new_members c =
     (case translate_member v m c of
        (new_member, c') \<Rightarrow> translate_members v ms (new_members @ [new_member]) c')"

definition translate_member_set ::
  "memberset_defaults \<Rightarrow> member_set \<Rightarrow> vec3 \<Rightarrow> counters \<Rightarrow> member_set \<times> counters" where
  "translate_member_set D ms translation_vector c =
     (case translate_members translation_vector (members ms) [] c of
        (new_members, c') \<Rightarrow>
          MemberSet new_members (classification ms) (default_L_y D) (default_L_z D) None c')"

subsection \<open>\<^verbatim>\<open>create_combined_model_pattern\<close>\<close>

text \<open>
  The dictionary \<^verbatim>\<open>node_mapping\<close> is written with the keys \<^verbatim>\<open>(original_node.id, i)\<close>
  and tested with the key \<^verbatim>\<open>new_node_coords\<close>, a tuple of three coordinates. A Python
  tuple of numbers is the list of its components: two tuples are equal when they have
  the same length and equal components, and \<^verbatim>\<open>1 == 1.0\<close>.
\<close>

type_synonym node_mapping = "real list \<rightharpoonup> node"

definition copy_node ::
  "int \<Rightarrow> vec3 \<Rightarrow> node \<Rightarrow> node_mapping \<times> counters \<Rightarrow> node_mapping \<times> counters" where
  \<comment> \<open>The body of the loop over \<^verbatim>\<open>original_model.get_all_nodes()\<close>.\<close>
  "copy_node i total_translation original_node st =
     (case st of (node_mapping, c) \<Rightarrow>
        let new_node_coords = [X original_node + v0 total_translation,
                               Y original_node + v1 total_translation,
                               Z original_node + v2 total_translation]
        in if node_mapping new_node_coords = None
           then (case Node (new_node_coords ! 0) (new_node_coords ! 1) (new_node_coords ! 2)
                        (nodal_support original_node) (node_classification original_node) c of
                   (new_node, c') \<Rightarrow>
                     (node_mapping([real (node_id original_node), real_of_int i] \<mapsto> new_node),
                      c'))
           else (node_mapping, c))"

definition copy_nodes ::
  "fers \<Rightarrow> vec3 \<Rightarrow> int \<Rightarrow> node_mapping \<times> counters \<Rightarrow> node_mapping \<times> counters" where
  \<comment> \<open>One round of the loop \<^verbatim>\<open>for i in range(1, count)\<close> that creates the nodes.\<close>
  "copy_nodes original_model spacing_vector i st =
     (let total_translation = (v0 spacing_vector * real_of_int i,
                               v1 spacing_vector * real_of_int i,
                               v2 spacing_vector * real_of_int i)
      in fold (copy_node i total_translation) (get_all_nodes original_model) st)"

definition lookup_node :: "node_mapping \<Rightarrow> real list \<Rightarrow> error + node" where
  \<comment> \<open>\<^verbatim>\<open>node_mapping[key]\<close>\<close>
  "lookup_node node_mapping k =
     (case node_mapping k of None \<Rightarrow> Inl (KeyError_tuple k) | Some n \<Rightarrow> Inr n)"

text \<open>
  The new \<^verbatim>\<open>Member\<close> objects are written again after they were put into their member
  sets and into \<^verbatim>\<open>member_mapping\<close>, so they live in a store, keyed by their ids; a member
  set and a list of \<^verbatim>\<open>member_mapping\<close> refer to them. \<^verbatim>\<open>member_mapping\<close> is a dictionary
  whose values are walked in insertion order: an association list from the original
  member to the list of the new members made from it.
\<close>

type_synonym member_mapping = "(nat \<times> nat list) list"

record build_state =
  ctr :: counters
  store :: "nat \<rightharpoonup> member"
  mapping :: member_mapping

definition mapping_append :: "nat \<Rightarrow> nat \<Rightarrow> member_mapping \<Rightarrow> member_mapping" where
  \<comment> \<open>\<^verbatim>\<open>if member not in member_mapping: member_mapping[member] = []\<close>, then
      \<^verbatim>\<open>member_mapping[member].append(new_member)\<close>\<close>
  "mapping_append k v mm =
     (let mm' = (if map_of mm k = None then mm @ [(k, [])] else mm)
      in map (\<lambda>(k', l). if k' = k then (k', l @ [v]) else (k', l)) mm')"

definition copy_member ::
  "int \<Rightarrow> node_mapping \<Rightarrow> member \<Rightarrow> build_state \<Rightarrow> error + (member \<times> build_state)" where
  \<comment> \<open>The body of the loop over \<^verbatim>\<open>original_member_set.members\<close>.\<close>
  "copy_member i node_mapping m st =
     (case lookup_node node_mapping [real (node_id (start_node m)), real_of_int i] of
        Inl e \<Rightarrow> Inl e
      | Inr new_start_node \<Rightarrow>
     (case lookup_node node_mapping [real (node_id (end_node m)), real_of_int i] of
        Inl e \<Rightarrow> Inl e
      | Inr new_end_node \<Rightarrow>
     (case (case reference_node m of
              Some r \<Rightarrow>
                (case lookup_node node_mapping [real (node_id r), real_of_int i] of
                   Inl e \<Rightarrow> Inl e
                 | Inr n \<Rightarrow> Inr (Some n))
            | None \<Rightarrow> Inr None) of
        Inl e \<Rightarrow> Inl e
      | Inr new_reference_node \<Rightarrow>
     (case Member new_start_node new_end_node (member_section m) None
             (start_hinge m) (end_hinge m) (member_classification m)
             (rotation_angle m) (chi m) (reference_member m) new_reference_node (ctr st) of
        (new_member, c') \<Rightarrow>
          Inr (new_member,
               st\<lparr>ctr := c',
                  store := (store st)(member_id new_member \<mapsto> new_member),
                  mapping := mapping_append (member_id m) (member_id new_member)
                               (mapping st)\<rparr>)))))"

fun copy_members ::
  "int \<Rightarrow> node_mapping \<Rightarrow> member list \<Rightarrow> member list \<Rightarrow> build_state \<Rightarrow>
   error + (member list \<times> build_state)" where
  "copy_members i nm [] new_members st = Inr (new_members, st)"
| "copy_members i nm (m # ms) new_members st =
     (case copy_member i nm m st of
        Inl e \<Rightarrow> Inl e
      | Inr (new_member, st') \<Rightarrow> copy_members i nm ms (new_members @ [new_member]) st')"

definition copy_member_set ::
  "int \<Rightarrow> node_mapping \<Rightarrow> member_set \<Rightarrow> fers \<times> build_state \<Rightarrow> error + (fers \<times> build_state)" where
  \<comment> \<open>The body of the loop over \<^verbatim>\<open>original_model.get_all_member_sets()\<close>.\<close>
  "copy_member_set i nm original_member_set acc =
     (case acc of (combined_model, st) \<Rightarrow>
        (case copy_members i nm (members original_member_set) [] st of
           Inl e \<Rightarrow> Inl e
         | Inr (new_members, st') \<Rightarrow>
             (case MemberSet new_members (classification original_member_set)
                     (L_y original_member_set) (L_z original_member_set) None (ctr st') of
                (translated_member_set, c') \<Rightarrow>
                  Inr (add_member_set combined_model [translated_member_set],
                       st'\<lparr>ctr := c'\<rparr>))))"

fun fold_err :: "('a \<Rightarrow> 's \<Rightarrow> error + 's) \<Rightarrow> 'a list \<Rightarrow> 's \<Rightarrow> error + 's" where
  \<comment> \<open>A \<^verbatim>\<open>for\<close> loop whose body can raise: the first exception ends the loop.\<close>
  "fold_err f [] s = Inr s"
| "fold_err f (x # xs) s = (case f x s of Inl e \<Rightarrow> Inl e | Inr s' \<Rightarrow> fold_err f xs s')"

definition copy_member_sets ::
  "fers \<Rightarrow> node_mapping \<Rightarrow> int \<Rightarrow> fers \<times> build_state \<Rightarrow> error + (fers \<times> build_state)" where
  \<comment> \<open>One round of the loop \<^verbatim>\<open>for i in range(1, count)\<close> that creates the members.\<close>
  "copy_member_sets original_model nm i acc =
     fold_err (copy_member_set i nm) (get_all_member_sets original_model) acc"

definition first_duplicate :: "member_mapping \<Rightarrow> nat \<Rightarrow> error + nat option" where
  \<comment> \<open>\<^verbatim>\<open>member_mapping.get(new_member.reference_member, [None])[0]\<close>\<close>
  "first_duplicate mm r =
     (case (case map_of mm r of None \<Rightarrow> [None] | Some l \<Rightarrow> map Some l) of
        [] \<Rightarrow> Inl IndexError
      | x # _ \<Rightarrow> Inr x)"

definition resolve_reference ::
  "member_mapping \<Rightarrow> nat \<Rightarrow> (nat \<rightharpoonup> member) \<Rightarrow> error + (nat \<rightharpoonup> member)" where
  \<comment> \<open>The body of the last loop, for the new member with id \<open>n\<close>. Every new member of
      \<^verbatim>\<open>member_mapping\<close> was stored when it was appended.\<close>
  "resolve_reference mm n st =
     (case st n of
        None \<Rightarrow> Inr st
      | Some new_member \<Rightarrow>
          (case reference_member new_member of
             None \<Rightarrow> Inr st
           | Some r \<Rightarrow>
               (case first_duplicate mm r of
                  Inl e \<Rightarrow> Inl e
                | Inr new_reference_member \<Rightarrow>
                    Inr (st(n \<mapsto> new_member\<lparr>reference_member := new_reference_member\<rparr>)))))"

definition resolve_references :: "member_mapping \<Rightarrow> (nat \<rightharpoonup> member) \<Rightarrow> error + (nat \<rightharpoonup> member)" where
  \<comment> \<open>\<^verbatim>\<open>for new_member_lists in member_mapping.values(): for new_member in new_member_lists\<close>\<close>
  "resolve_references mm st = fold_err (resolve_reference mm) (concat (map snd mm)) st"

definition read_member_set :: "(nat \<rightharpoonup> member) \<Rightarrow> member_set \<Rightarrow> member_set" where
  \<comment> \<open>A new member set as it reads once the function has returned: each member is the
      object that the store holds under its id.\<close>
  "read_member_set st ms =
     ms\<lparr>members := map (\<lambda>m. case st (member_id m) of Some m' \<Rightarrow> m' | None \<Rightarrow> m) (members ms)\<rparr>"

text \<open>
  The member sets of the original model come first in the combined model and hold the
  original \<^verbatim>\<open>Member\<close> objects, which the last loop never writes. The member sets after
  them are the new ones; their members are read from the store.
\<close>

definition create_combined_model_pattern ::
  "fers \<Rightarrow> int \<Rightarrow> vec3 \<Rightarrow> counters \<Rightarrow> error + (fers \<times> counters)" where
  "create_combined_model_pattern original_model count spacing_vector c =
     (let combined_model =
            fold (\<lambda>original_member_set m. add_member_set m [original_member_set])
              (get_all_member_sets original_model) FERS;
          (node_mapping, c1) =
            fold (copy_nodes original_model spacing_vector) [1..count - 1] (Map.empty, c)
      in case fold_err (copy_member_sets original_model node_mapping) [1..count - 1]
                (combined_model, \<lparr>ctr = c1, store = Map.empty, mapping = []\<rparr>) of
           Inl e \<Rightarrow> Inl e
         | Inr (combined_model', st) \<Rightarrow>
             (case resolve_references (mapping st) (store st) of
                Inl e \<Rightarrow> Inl e
              | Inr store' \<Rightarrow>
                  Inr (combined_model'\<lparr>member_sets :=
                         take (length (get_all_member_sets original_model))
                           (member_sets combined_model') @
                         map (read_member_set store')
                           (drop (length (get_all_member_sets original_model))
                              (member_sets combined_model'))\<rparr>,
                       ctr st)))"

subsection \<open>\<^verbatim>\<open>translate_model\<close>\<close>

definition translate_node :: "vec3 \<Rightarrow> node \<Rightarrow> (nat \<rightharpoonup> node) \<times> counters \<Rightarrow> (nat \<rightharpoonup> node) \<times> counters" where
  \<comment> \<open>The body of the loop over \<^verbatim>\<open>model.get_all_nodes()\<close>: \<^verbatim>\<open>Node(X=..., Y=..., Z=...)\<close>.\<close>
  "translate_node translation_vector original_node st =
     (case st of (node_translation_map, c) \<Rightarrow>
        (case Node (X original_node + v0 translation_vector)
                   (Y original_node + v1 translation_vector)
                   (Z original_node + v2 translation_vector) None None c of
           (translated_node, c') \<Rightarrow>
             (node_translation_map(node_id original_node \<mapsto> translated_node), c')))"

definition lookup_id :: "(nat \<rightharpoonup> node) \<Rightarrow> nat \<Rightarrow> error + node" where
  \<comment> \<open>\<^verbatim>\<open>node_translation_map[key]\<close>\<close>
  "lookup_id node_translation_map k =
     (case node_translation_map k of None \<Rightarrow> Inl (KeyError_id k) | Some n \<Rightarrow> Inr n)"

definition rebuild_member ::
  "(nat \<rightharpoonup> node) \<Rightarrow> member \<Rightarrow> member list \<times> counters \<Rightarrow> error + (member list \<times> counters)" where
  "rebuild_member node_translation_map m acc =
     (case acc of (new_members, c) \<Rightarrow>
        (case lookup_id node_translation_map (node_id (start_node m)) of
           Inl e \<Rightarrow> Inl e
         | Inr new_start_node \<Rightarrow>
        (case lookup_id node_translation_map (node_id (end_node m)) of
           Inl e \<Rightarrow> Inl e
         | Inr new_end_node \<Rightarrow>
        (case Member new_start_node new_end_node (member_section m) None
                (start_hinge m) (end_hinge m) (member_classification m)
                None None None None c of
           (new_member, c') \<Rightarrow> Inr (new_members @ [new_member], c')))))"

definition rebuild_member_set ::
  "memberset_defaults \<Rightarrow> (nat \<rightharpoonup> node) \<Rightarrow> member_set \<Rightarrow> fers \<times> counters \<Rightarrow>
   error + (fers \<times> counters)" where
  "rebuild_member_set D node_translation_map original_member_set acc =
     (case acc of (new_model, c) \<Rightarrow>
        (case fold_err (rebuild_member node_translation_map) (members original_member_set)
                ([], c) of
           Inl e \<Rightarrow> Inl e
         | Inr (new_members, c') \<Rightarrow>
             (case MemberSet new_members (classification original_member_set)
                     (default_L_y D) (default_L_z D)
                     (Some (member_set_id original_member_set)) c' of
                (new_member_set, c'') \<Rightarrow>
                  Inr (add_member_set new_model [new_member_set], c''))))"

definition translate_model ::
  "memberset_defaults \<Rightarrow> fers \<Rightarrow> vec3 \<Rightarrow> counters \<Rightarrow> error + (fers \<times> counters)" where
  "translate_model D model translation_vector c =
     (case fold (translate_node translation_vector) (get_all_nodes model) (Map.empty, c) of
        (node_translation_map, c1) \<Rightarrow>
          fold_err (rebuild_member_set D node_translation_map) (get_all_member_sets model)
            (FERS, c1))"

subsection \<open>\<^verbatim>\<open>get_membersets_by_classification\<close>\<close>

text \<open>
  The module \<^verbatim>\<open>re\<close> is Python's library. What the function uses of it is a parameter:
  the character class \<^verbatim>\<open>\w\<close>, \<^verbatim>\<open>re.compile\<close> (which raises \<^verbatim>\<open>re.error\<close> on an
  invalid pattern) and the method \<^verbatim>\<open>search\<close> of a compiled pattern.
\<close>

record 'p regex_engine =
  word_char :: "char \<Rightarrow> bool"
  re_compile :: "string \<Rightarrow> error + 'p"
  re_search :: "'p \<Rightarrow> string \<Rightarrow> bool"

definition newline :: char where
  "newline = CHR 0x0A"

definition word_token_match :: "(char \<Rightarrow> bool) \<Rightarrow> string \<Rightarrow> bool" where
  \<comment> \<open>\<^verbatim>\<open>re.match(r"^\w+$", s)\<close>: one or more word characters from the start, as many as
      there are, and then \<^verbatim>\<open>$\<close>, which matches at the end of the string and also just
      before a newline that ends the string.\<close>
  "word_token_match w s =
     (let r = dropWhile w s in length r < length s \<and> (r = [] \<or> r = [newline]))"

definition get_membersets_by_classification ::
  "'p regex_engine \<Rightarrow> fers \<Rightarrow> string \<Rightarrow> error + member_set list" where
  "get_membersets_by_classification E self classification_pattern =
     (if word_token_match (word_char E) classification_pattern
      then Inr (filter (\<lambda>ms. sublist classification_pattern (classification ms))
                  (member_sets self))
      else (case re_compile E classification_pattern of
              Inl e \<Rightarrow> Inl e
            | Inr compiled_pattern \<Rightarrow>
                Inr (filter (\<lambda>ms. re_search E compiled_pattern (classification ms))
                       (member_sets self))))"

definition pure_word_token :: "(char \<Rightarrow> bool) \<Rightarrow> string \<Rightarrow> bool" where
  \<comment> \<open>The spec's "pure word-character token": not empty, word characters only.\<close>
  "pure_word_token w s = (s \<noteq> [] \<and> list_all w s)"

section \<open>The deflection reconstructor of deformation\_utils.py\<close>















section \<open>Notions used in the statements\<close>

definition end_node_ids :: "member list \<Rightarrow> nat list" where
  \<comment> \<open>The ids of the start and end nodes of a list of members, member by member.\<close>
  "end_node_ids ms = concat (map (\<lambda>m. [node_id (start_node m), node_id (end_node m)]) ms)"

definition moved :: "nat \<Rightarrow> node \<Rightarrow> real \<Rightarrow> real \<Rightarrow> real \<Rightarrow> node" where
  \<comment> \<open>The node \<open>n\<close> displaced by \<open>(dx, dy, dz)\<close>, under the id \<open>i\<close>.\<close>
  "moved i n dx dy dz = n\<lparr>node_id := i, X := X n + dx, Y := Y n + dy, Z := Z n + dz\<rparr>"

definition copy_of :: "nat \<Rightarrow> member \<Rightarrow> node \<Rightarrow> node \<Rightarrow> nat option \<Rightarrow> member" where
  \<comment> \<open>The member \<open>m\<close> under the id \<open>i\<close>, between the nodes \<open>s\<close> and \<open>e\<close>, referring to \<open>r\<close>.\<close>
  "copy_of i m s e r = m\<lparr>member_id := i, start_node := s, end_node := e, reference_member := r\<rparr>"

definition end_nodes :: "member list \<Rightarrow> node list" where
  \<comment> \<open>The start and end nodes of a list of members, member by member.\<close>
  "end_nodes ms = concat (map (\<lambda>m. [start_node m, end_node m]) ms)"

text \<open>
  The first reference node, in the order of the walk over the members, that is not the
  start or end node of any member: \<open>ids\<close> is the set of the ids of the nodes that
  \<^verbatim>\<open>get_all_nodes\<close> returns.
\<close>

fun first_dangling :: "nat set \<Rightarrow> member list \<Rightarrow> node option" where
  "first_dangling ids [] = None"
| "first_dangling ids (m # ms) =
     (case reference_node m of
        Some r \<Rightarrow> if node_id r \<in> ids then first_dangling ids ms else Some r
      | None \<Rightarrow> first_dangling ids ms)"

text \<open>
  \<open>lost_reference ids m' m\<close>: when the member \<open>m\<close> refers to a member whose id is not in
  \<open>ids\<close>, its duplicate \<open>m'\<close> refers to no member.
\<close>

definition lost_reference :: "nat set \<Rightarrow> member \<Rightarrow> member \<Rightarrow> bool" where
  "lost_reference ids m' m =
     (case reference_member m of
        Some x \<Rightarrow> x \<in> ids \<or> reference_member m' = None
      | None \<Rightarrow> True)"

text \<open>The buckling lengths of a member set, and what \<^verbatim>\<open>translate_model\<close> passes on.\<close>

definition lengths :: "member_set \<Rightarrow> real option \<times> real option" where
  "lengths ms = (L_y ms, L_z ms)"

definition carried :: "member_set \<Rightarrow> nat \<times> string" where
  "carried ms = (member_set_id ms, classification ms)"

section \<open>Notions used in the proofs\<close>

text \<open>
  For the loops of \<^verbatim>\<open>create_combined_model_pattern\<close>: the keys of \<^verbatim>\<open>node_mapping\<close> are
  pairs; \<open>good_keys\<close> says which pairs with the copy index \<open>i\<close> it holds; \<open>new_ids\<close> are
  the new members that \<^verbatim>\<open>member_mapping\<close> lists; \<open>pass_inv\<close> is what the loop over the
  members keeps true of the store and of \<^verbatim>\<open>member_mapping\<close>; \<open>resolved\<close> is the reference
  that the last loop writes, \<open>rewired\<close> a member after it; \<open>shape\<close> is what a copy of a
  member set has in common with its source.
\<close>

definition pair_keys :: "node_mapping \<Rightarrow> bool" where
  "pair_keys nm = (\<forall>k. nm k \<noteq> None \<longrightarrow> length k = 2)"

definition new_ids :: "member_mapping \<Rightarrow> nat list" where
  "new_ids mm = concat (map snd mm)"

definition append_at :: "nat \<Rightarrow> nat \<Rightarrow> nat \<times> nat list \<Rightarrow> nat \<times> nat list" where
  "append_at k v e = (case e of (k', l) \<Rightarrow> if k' = k then (k', l @ [v]) else (k', l))"

definition pass_inv :: "build_state \<Rightarrow> member list \<Rightarrow> bool" where
  "pass_inv st news \<longleftrightarrow>
     (\<forall>m'\<in>set news. store st (member_id m') = Some m' \<and>
                     member_id m' \<in> set (new_ids (mapping st))) \<and>
     distinct (new_ids (mapping st)) \<and>
     (\<forall>n\<in>set (new_ids (mapping st)). n < member_counter (ctr st)) \<and>
     (\<forall>l\<in>snd ` set (mapping st). l \<noteq> []) \<and>
     distinct (map fst (mapping st))"

definition good_keys :: "node_mapping \<Rightarrow> int \<Rightarrow> nat set \<Rightarrow> bool" where
  "good_keys nm i ids = (\<forall>a. nm [real a, real_of_int i] \<noteq> None \<longleftrightarrow> a \<in> ids)"

definition shape :: "member_set \<Rightarrow> nat option list \<times> string \<times> real option \<times> real option" where
  "shape ms = (map reference_member (members ms), classification ms, L_y ms, L_z ms)"

definition resolved :: "member_mapping \<Rightarrow> nat option \<Rightarrow> nat option" where
  "resolved mm ref =
     (case ref of
        None \<Rightarrow> None
      | Some r \<Rightarrow>
          (case map_of mm r of
             None \<Rightarrow> None
           | Some l \<Rightarrow> (case l of [] \<Rightarrow> None | x # _ \<Rightarrow> Some x)))"

definition rewired :: "member_mapping \<Rightarrow> member \<Rightarrow> member" where
  "rewired mm m = m\<lparr>reference_member := resolved mm (reference_member m)\<rparr>"

definition reshape ::
  "member_mapping \<Rightarrow> nat option list \<times> string \<times> real option \<times> real option \<Rightarrow>
   nat option list \<times> string \<times> real option \<times> real option" where
  "reshape mm s = (case s of (refs, rest) \<Rightarrow> (map (resolved mm) refs, rest))"

section \<open>A small frame\<close>

text \<open>
  A column, \<open>member_1\<close>, and two beams. The nodes \<open>node_b\<close> and \<open>node_d\<close> lie at the
  same point but are two objects; \<open>member_2\<close> takes its orientation from \<open>member_1\<close> and
  is in both member sets; \<open>member_4\<close> takes its orientation from a node that is not
  an end of any member.
\<close>

definition steel_section :: cross_section where
  "steel_section = \<lparr>section_name = ''IPE200'', material = ''S235''\<rparr>"

definition node_a :: node where
  "node_a = \<lparr>node_id = 1, X = 0, Y = 0, Z = 0, nodal_support = Some 7,
     node_classification = Some ''base''\<rparr>"

definition node_b :: node where
  "node_b = \<lparr>node_id = 2, X = 0, Y = 0, Z = 3, nodal_support = None,
     node_classification = None\<rparr>"

definition node_c :: node where
  "node_c = \<lparr>node_id = 3, X = 4, Y = 0, Z = 3, nodal_support = None,
     node_classification = None\<rparr>"

definition node_d :: node where
  "node_d = \<lparr>node_id = 4, X = 0, Y = 0, Z = 3, nodal_support = None,
     node_classification = None\<rparr>"

definition plain_member :: "nat \<Rightarrow> node \<Rightarrow> node \<Rightarrow> member" where
  "plain_member i s e =
     \<lparr>member_id = i, start_node = s, end_node = e, member_section = steel_section,
      member_material = None, start_hinge = None, end_hinge = None,
      member_classification = ''bar'', rotation_angle = None, chi = None,
      reference_member = None, reference_node = None\<rparr>"

definition member_1 :: member where
  "member_1 = plain_member 1 node_a node_b"

definition member_2 :: member where
  "member_2 = (plain_member 2 node_d node_c)\<lparr>reference_member := Some 1\<rparr>"

definition member_3 :: member where
  "member_3 = plain_member 3 node_b node_c"

definition member_4 :: member where
  "member_4 = (plain_member 4 node_a node_b)\<lparr>reference_node := Some node_c\<rparr>"

definition set_1 :: member_set where
  "set_1 = \<lparr>member_set_id = 1, members = [member_1, member_2], classification = ''portal'',
     L_y = Some 3, L_z = Some 4\<rparr>"

definition set_2 :: member_set where
  "set_2 = \<lparr>member_set_id = 2, members = [member_2, member_3], classification = ''beam_1'',
     L_y = Some 5, L_z = None\<rparr>"

definition set_3 :: member_set where
  "set_3 = \<lparr>member_set_id = 3, members = [member_4], classification = ''column'',
     L_y = None, L_z = None\<rparr>"

definition frame :: fers where
  "frame = FERS\<lparr>member_sets := [set_1, set_2]\<rparr>"

definition portal :: fers where
  "portal = FERS\<lparr>member_sets := [set_1]\<rparr>"

definition beams :: fers where
  "beams = FERS\<lparr>member_sets := [set_2]\<rparr>"

definition column :: fers where
  "column = FERS\<lparr>member_sets := [set_3]\<rparr>"

definition frame_counters :: counters where
  "frame_counters = \<lparr>node_counter = 5, member_counter = 5, member_set_counter = 4\<rparr>"

definition no_defaults :: memberset_defaults where
  "no_defaults = \<lparr>default_L_y = None, default_L_z = None\<rparr>"

text \<open>
  A regular-expression engine to try the lookup on: its word characters are the ASCII
  ones, it refuses the pattern \<^verbatim>\<open>(\<close> and reads every other pattern literally.
\<close>

definition ascii_word_char :: "char \<Rightarrow> bool" where
  "ascii_word_char c =
     (c \<in> set ''abcdefghijklmnopqrstuvwxyzABCDEFGHIJKLMNOPQRSTUVWXYZ0123456789_'')"

definition literal_engine :: "string regex_engine" where
  "literal_engine =
     \<lparr>word_char = ascii_word_char,
      re_compile = (\<lambda>p. if p = ''('' then Inl (re_error ''missing ), unterminated subpattern'')
                        else Inr p),
      re_search = (\<lambda>compiled s. sublist compiled s)\<rparr>"

text \<open>
  What the functions make of the frame, with the spacing \<open>(10, 0, 0)\<close>: the dictionaries
  \<^verbatim>\<open>node_mapping\<close> after the loop over the nodes, and the models returned.
\<close>

definition portal_node_mapping :: node_mapping where
  "portal_node_mapping =
     [ [1, 1] \<mapsto> moved 5 node_a 10 0 0, [2, 1] \<mapsto> moved 6 node_b 10 0 0,
      [4, 1] \<mapsto> moved 7 node_d 10 0 0, [3, 1] \<mapsto> moved 8 node_c 10 0 0,
      [1, 2] \<mapsto> moved 9 node_a 20 0 0, [2, 2] \<mapsto> moved 10 node_b 20 0 0,
      [4, 2] \<mapsto> moved 11 node_d 20 0 0, [3, 2] \<mapsto> moved 12 node_c 20 0 0]"

definition portal_tripled :: fers where
  "portal_tripled = FERS\<lparr>member_sets := [set_1,
        set_1\<lparr>member_set_id := 4, members :=
          [copy_of 5 member_1 (moved 5 node_a 10 0 0) (moved 6 node_b 10 0 0) None,
           copy_of 6 member_2 (moved 7 node_d 10 0 0) (moved 8 node_c 10 0 0) (Some 5)]\<rparr>,
        set_1\<lparr>member_set_id := 5, members :=
          [copy_of 7 member_1 (moved 9 node_a 20 0 0) (moved 10 node_b 20 0 0) None,
           copy_of 8 member_2 (moved 11 node_d 20 0 0) (moved 12 node_c 20 0 0) (Some 5)]\<rparr>]\<rparr>"

definition beams_node_mapping :: node_mapping where
  "beams_node_mapping =
     [ [4, 1] \<mapsto> moved 5 node_d 10 0 0, [3, 1] \<mapsto> moved 6 node_c 10 0 0,
      [2, 1] \<mapsto> moved 7 node_b 10 0 0]"

definition beams_doubled :: fers where
  "beams_doubled = FERS\<lparr>member_sets := [set_2,
        set_2\<lparr>member_set_id := 4, members :=
          [copy_of 5 member_2 (moved 5 node_d 10 0 0) (moved 6 node_c 10 0 0) None,
           copy_of 6 member_3 (moved 7 node_b 10 0 0) (moved 6 node_c 10 0 0) None]\<rparr>]\<rparr>"

definition portal_translated :: fers where
  "portal_translated = FERS\<lparr>member_sets :=
     [set_1\<lparr>L_y := None, L_z := None, members :=
        [copy_of 5 member_1
           ((moved 5 node_a 10 0 0)\<lparr>nodal_support := None, node_classification := None\<rparr>)
           (moved 6 node_b 10 0 0) None,
         copy_of 6 member_2 (moved 7 node_d 10 0 0) (moved 8 node_c 10 0 0) None]\<rparr>]\<rparr>"

section \<open>Enumeration: each id once, in first-seen order\<close>

lemma fold_members_step:
  "fold members_step xs (ms, ids)
   = (ms @ first_seen member_id ids xs, ids \<union> member_id ` set xs)"
  by (induction xs arbitrary: ms ids) (auto simp: members_step_def)

lemma fold_node_step:
  "fold node_step xs (ns, ids) = (ns @ first_seen node_id ids xs, ids \<union> node_id ` set xs)"
  by (induction xs arbitrary: ns ids) (auto simp: node_step_def)

lemma fold_nodes_step:
  "fold nodes_step xs acc
   = fold node_step (concat (map (\<lambda>m. [start_node m, end_node m]) xs)) acc"
  by (induction xs arbitrary: acc) (auto simp: nodes_step_def)

lemma fold_fold_concat:
  "fold (\<lambda>ms acc. fold f (g ms) acc) mss acc = fold f (concat (map g mss)) acc"
  by (induction mss arbitrary: acc) auto

lemma get_all_members_first_seen:
  "get_all_members self = first_seen member_id {} (member_walk self)"
  by (simp add: get_all_members_def member_walk_def fold_fold_concat fold_members_step)

lemma fold_nodes_sets:
  "fold (\<lambda>ms acc. fold nodes_step (members ms) acc) mss acc
   = fold node_step
       (concat (map (\<lambda>m. [start_node m, end_node m]) (concat (map members mss)))) acc"
  by (induction mss arbitrary: acc) (auto simp: fold_nodes_step)

lemma get_all_nodes_first_seen:
  "get_all_nodes self = first_seen node_id {} (node_walk self)"
  by (simp add: get_all_nodes_def node_walk_def member_walk_def fold_nodes_sets fold_node_step)

lemma first_seen_keys:
  "key ` set (first_seen key seen xs) = key ` set xs - seen"
  by (induction xs arbitrary: seen) auto

lemma first_seen_distinct:
  "distinct (map key (first_seen key seen xs))"
  by (induction xs arbitrary: seen) (auto simp: first_seen_keys)

lemma first_occurrence_Cons:
  "rev (remdups (rev (y # ys))) = y # rev (remdups (rev (filter (\<lambda>k. k \<noteq> y) ys)))"
proof -
  have "remdups (zs @ [y]) = remdups (filter (\<lambda>k. k \<noteq> y) zs) @ [y]" for zs
    by (induction zs) auto
  then show ?thesis by (simp add: rev_filter)
qed

lemma first_seen_remdups:
  "map key (first_seen key seen xs)
   = rev (remdups (rev (filter (\<lambda>k. k \<notin> seen) (map key xs))))"
proof (induction xs arbitrary: seen)
  case Nil
  show ?case by simp
next
  case (Cons x xs)
  show ?case
  proof (cases "key x \<in> seen")
    case True
    then show ?thesis using Cons.IH [of seen] by simp
  next
    case False
    have "filter (\<lambda>k. k \<noteq> key x) (filter (\<lambda>k. k \<notin> seen) (map key xs))
        = filter (\<lambda>k. k \<notin> insert (key x) seen) (map key xs)"
      by (simp add: conj_commute)
    then show ?thesis
      using False Cons.IH [of "insert (key x) seen"]
      by (simp only: first_seen.simps list.map filter.simps if_False if_True
            first_occurrence_Cons simp_thms)
  qed
qed

text \<open>
  C7. \<^verbatim>\<open>get_all_members\<close> and \<^verbatim>\<open>get_all_nodes\<close> return no id twice, however many member
  sets and members refer to one object, and they return the objects in the order in which
  the walk over the member sets and their members first meets each id: the ids returned
  are the ids of the walk with every later occurrence removed, and each object returned
  is the first one of the walk with its id.
\<close>

theorem enumeration_once_in_first_seen_order:
  "distinct (map member_id (get_all_members self)) \<and>
   distinct (map node_id (get_all_nodes self)) \<and>
   get_all_members self = first_seen member_id {} (member_walk self) \<and>
   get_all_nodes self = first_seen node_id {} (node_walk self) \<and>
   map member_id (get_all_members self)
     = rev (remdups (rev (map member_id (member_walk self)))) \<and>
   map node_id (get_all_nodes self) = rev (remdups (rev (map node_id (node_walk self))))"
  by (simp add: get_all_members_first_seen get_all_nodes_first_seen first_seen_distinct
        first_seen_remdups)

lemmas frame_defs = frame_def set_1_def set_2_def member_1_def member_2_def member_3_def
  plain_member_def node_a_def node_b_def node_c_def node_d_def steel_section_def FERS_def

lemma frame_member_walk: "map member_id (member_walk frame) = [1, 2, 2, 3]"
  by (simp add: frame_defs member_walk_def)

lemma frame_node_walk: "map node_id (node_walk frame) = [1, 2, 4, 3, 4, 3, 2, 3]"
  by (simp add: frame_defs member_walk_def node_walk_def)

theorem enumeration_once_in_first_seen_order_witness:
  "map member_id (member_walk frame) = [1, 2, 2, 3] \<and>
   map node_id (node_walk frame) = [1, 2, 4, 3, 4, 3, 2, 3] \<and>
   map member_id (get_all_members frame) = [1, 2, 3] \<and>
   map node_id (get_all_nodes frame) = [1, 2, 4, 3]"
proof -
  note e = enumeration_once_in_first_seen_order [of frame]
  have m: "map member_id (get_all_members frame)
      = rev (remdups (rev (map member_id (member_walk frame))))"
    using e by blast
  have n: "map node_id (get_all_nodes frame)
      = rev (remdups (rev (map node_id (node_walk frame))))"
    using e by blast
  show ?thesis
    unfolding m n frame_member_walk frame_node_walk by simp
qed

section \<open>\<^verbatim>\<open>translate_member_set\<close>: every member gets two nodes of its own\<close>

lemma translate_member_ids:
  "translate_member v m c = (m', c') \<Longrightarrow>
     node_id (start_node m') = node_counter c \<and>
     node_id (end_node m') = Suc (node_counter c) \<and>
     node_counter c' = Suc (Suc (node_counter c))"
  by (auto simp: translate_member_def Node_def Member_def)

lemma upt_two_more:
  "[a ..< a + 2 * Suc n] = a # Suc a # [Suc (Suc a) ..< Suc (Suc a) + 2 * n]"
  by (simp add: upt_conv_Cons)

lemma translate_members_ids:
  "translate_members v ms acc c = (ms', c') \<Longrightarrow>
     end_node_ids ms'
       = end_node_ids acc @ [node_counter c ..< node_counter c + 2 * length ms] \<and>
     node_counter c' = node_counter c + 2 * length ms \<and>
     length ms' = length acc + length ms"
proof (induction ms arbitrary: acc c)
  case Nil
  then show ?case by simp
next
  case (Cons m ms)
  obtain nm c1 where t: "translate_member v m c = (nm, c1)"
    by (cases "translate_member v m c")
  note ids = translate_member_ids [OF t]
  from Cons.prems t have "translate_members v ms (acc @ [nm]) c1 = (ms', c')" by simp
  from Cons.IH [OF this]
  have 1: "end_node_ids ms'
      = end_node_ids (acc @ [nm]) @ [node_counter c1 ..< node_counter c1 + 2 * length ms]"
    and 2: "node_counter c' = node_counter c1 + 2 * length ms"
    and 6: "length ms' = length (acc @ [nm]) + length ms" by simp_all
  have 3: "end_node_ids (acc @ [nm])
      = end_node_ids acc @ [node_counter c, Suc (node_counter c)]"
    using ids by (simp add: end_node_ids_def)
  have 4: "node_counter c1 = Suc (Suc (node_counter c))" using ids by simp
  have 5: "[node_counter c ..< node_counter c + 2 * length (m # ms)]
      = node_counter c # Suc (node_counter c) #
        [Suc (Suc (node_counter c)) ..< Suc (Suc (node_counter c)) + 2 * length ms]"
    using upt_two_more [of "node_counter c" "length ms"] by simp
  show ?case
    unfolding 1 2 3 4 5 6 by simp
qed

text \<open>
  C10. \<^verbatim>\<open>translate_member_set\<close> makes one new member per member of the source set, and
  a new pair of end nodes for every member on its own: the ids of the start and end
  nodes of the new members, read member by member, are consecutive values of the node
  counter, so no two of them are equal. Two new members never share a node, also where
  the members they come from share one.
\<close>

theorem translate_member_set_shares_no_node:
  "length (members (fst (translate_member_set D ms v c))) = length (members ms) \<and>
   end_node_ids (members (fst (translate_member_set D ms v c)))
     = [node_counter c ..< node_counter c + 2 * length (members ms)] \<and>
   distinct (end_node_ids (members (fst (translate_member_set D ms v c))))"
proof -
  obtain ms' c' where t: "translate_members v (members ms) [] c = (ms', c')"
    by (cases "translate_members v (members ms) [] c")
  have m: "members (fst (translate_member_set D ms v c)) = ms'"
    by (simp add: translate_member_set_def t MemberSet_def)
  from translate_members_ids [OF t] show ?thesis
    by (simp add: m end_node_ids_def)
qed

theorem translate_member_set_shares_no_node_witness:
  "end_node_ids (members set_2) = [4, 3, 2, 3] \<and>
   end_node_ids (members (fst (translate_member_set no_defaults set_2 (10, 0, 0)
     frame_counters))) = [5, 6, 7, 8]"
  using translate_member_set_shares_no_node [of no_defaults set_2 "(10, 0, 0)" frame_counters]
  by (simp add: end_node_ids_def set_2_def member_2_def member_3_def plain_member_def
        node_b_def node_c_def node_d_def frame_counters_def upt_rec)

section \<open>\<^verbatim>\<open>create_combined_model_pattern\<close> with a count of one\<close>

lemma fold_add_member_set:
  "fold (\<lambda>ms m. add_member_set m [ms]) mss M = M\<lparr>member_sets := member_sets M @ mss\<rparr>"
  by (induction mss arbitrary: M) (simp_all add: add_member_set_def)

text \<open>
  C6. With \<open>count = 1\<close>, \<^verbatim>\<open>create_combined_model_pattern\<close> returns a model whose member
  sets are the member sets of the original model, the same objects in the same order and
  nothing else; no node, member or member set is created (the counters are as before).
\<close>

theorem count_one_adds_nothing:
  "create_combined_model_pattern original_model 1 spacing_vector c
   = Inr (FERS\<lparr>member_sets := member_sets original_model\<rparr>, c)"
  by (simp add: create_combined_model_pattern_def fold_add_member_set get_all_member_sets_def
        resolve_references_def FERS_def)

theorem count_one_adds_nothing_witness:
  "create_combined_model_pattern frame 1 (10, 0, 0) frame_counters = Inr (frame, frame_counters)"
  using count_one_adds_nothing [of frame "(10, 0, 0)" frame_counters]
  by (simp add: frame_def FERS_def)

section \<open>The samples of \<^verbatim>\<open>interpolate_beam_local\<close>\<close>






section \<open>Runs on the small frame\<close>

lemma portal_nodes: "get_all_nodes portal = [node_a, node_b, node_d, node_c]"
  by (simp add: get_all_nodes_def portal_def set_1_def member_1_def member_2_def plain_member_def
      FERS_def nodes_step_def node_step_def node_a_def node_b_def node_c_def node_d_def)

lemma copy_node_fresh:
  "nm [X n + v0 t, Y n + v1 t, Z n + v2 t] = None \<Longrightarrow>
   copy_node i t n (nm, c) =
     (nm([real (node_id n), real_of_int i] \<mapsto> moved (node_counter c) n (v0 t) (v1 t) (v2 t)),
      c\<lparr>node_counter := Suc (node_counter c)\<rparr>)"
  by (cases n) (simp add: copy_node_def Node_def moved_def)

lemma portal_node_pass:
  "fold (copy_nodes portal (10, 0, 0)) [1..3 - 1] (Map.empty, frame_counters) =
    (portal_node_mapping, frame_counters\<lparr>node_counter := 13\<rparr>)"
  unfolding portal_node_mapping_def
  apply (simp add: upto_rec1 copy_nodes_def portal_nodes)
  apply (simp add: copy_node_fresh v0_def v1_def v2_def frame_counters_def)
  apply (simp add: node_a_def node_b_def node_c_def node_d_def)
  done

lemma lookups:
  "lookup_node portal_node_mapping [1, 1] = Inr (moved 5 node_a 10 0 0)"
  "lookup_node portal_node_mapping [2, 1] = Inr (moved 6 node_b 10 0 0)"
  "lookup_node portal_node_mapping [4, 1] = Inr (moved 7 node_d 10 0 0)"
  "lookup_node portal_node_mapping [3, 1] = Inr (moved 8 node_c 10 0 0)"
  "lookup_node portal_node_mapping [1, 2] = Inr (moved 9 node_a 20 0 0)"
  "lookup_node portal_node_mapping [2, 2] = Inr (moved 10 node_b 20 0 0)"
  "lookup_node portal_node_mapping [4, 2] = Inr (moved 11 node_d 20 0 0)"
  "lookup_node portal_node_mapping [3, 2] = Inr (moved 12 node_c 20 0 0)"
  by (simp_all add: lookup_node_def portal_node_mapping_def)

lemma copy_member_plain:
  "reference_node m = None \<Longrightarrow>
   lookup_node nm [real (node_id (start_node m)), real_of_int i] = Inr s \<Longrightarrow>
   lookup_node nm [real (node_id (end_node m)), real_of_int i] = Inr e \<Longrightarrow>
   member_material m = None \<Longrightarrow>
   copy_member i nm m st =
     Inr (copy_of (member_counter (ctr st)) m s e (reference_member m),
          st\<lparr>ctr := (ctr st)\<lparr>member_counter := Suc (member_counter (ctr st))\<rparr>,
             store := (store st)(member_counter (ctr st) \<mapsto>
                copy_of (member_counter (ctr st)) m s e (reference_member m)),
             mapping := mapping_append (member_id m) (member_counter (ctr st)) (mapping st)\<rparr>)"
  by (cases m) (simp add: copy_member_def Member_def copy_of_def)

lemma portal_member_pass:
  "fold_err (copy_member_sets portal portal_node_mapping) [1..3 - 1]
     (portal, \<lparr>ctr = frame_counters\<lparr>node_counter := 13\<rparr>, store = Map.empty, mapping = []\<rparr>)
   = Inr (FERS\<lparr>member_sets := [set_1, 
        set_1\<lparr>member_set_id := 4, members := [copy_of 5 member_1 (moved 5 node_a 10 0 0) (moved 6 node_b 10 0 0) None,
            copy_of 6 member_2 (moved 7 node_d 10 0 0) (moved 8 node_c 10 0 0) (Some 1)]\<rparr>,
        set_1\<lparr>member_set_id := 5, members := [copy_of 7 member_1 (moved 9 node_a 20 0 0) (moved 10 node_b 20 0 0) None,
            copy_of 8 member_2 (moved 11 node_d 20 0 0) (moved 12 node_c 20 0 0) (Some 1)]\<rparr>]\<rparr>,
      \<lparr>ctr = \<lparr>node_counter = 13, member_counter = 9, member_set_counter = 6\<rparr>,
        store = [5 \<mapsto> copy_of 5 member_1 (moved 5 node_a 10 0 0) (moved 6 node_b 10 0 0) None,
                 6 \<mapsto> copy_of 6 member_2 (moved 7 node_d 10 0 0) (moved 8 node_c 10 0 0) (Some 1),
                 7 \<mapsto> copy_of 7 member_1 (moved 9 node_a 20 0 0) (moved 10 node_b 20 0 0) None,
                 8 \<mapsto> copy_of 8 member_2 (moved 11 node_d 20 0 0) (moved 12 node_c 20 0 0) (Some 1)],
        mapping = [(1, [5, 7]), (2, [6, 8])]\<rparr>)"
proof -
  have m1: "reference_node member_1 = None" "member_material member_1 = None"
     "node_id (start_node member_1) = 1" "node_id (end_node member_1) = 2" "member_id member_1 = 1"
     "reference_member member_1 = None"
    by (simp_all add: member_1_def plain_member_def node_a_def node_b_def)
  have m2: "reference_node member_2 = None" "member_material member_2 = None"
     "node_id (start_node member_2) = 4" "node_id (end_node member_2) = 3" "member_id member_2 = 2"
     "reference_member member_2 = Some 1"
    by (simp_all add: member_2_def plain_member_def node_d_def node_c_def)
  have s1: "members set_1 = [member_1, member_2]" by (simp add: set_1_def)
  show ?thesis
    apply (simp add: upto_rec1 copy_member_sets_def get_all_member_sets_def portal_def FERS_def
        copy_member_set_def s1 copy_member_plain m1 m2 lookups frame_counters_def MemberSet_def
        add_member_set_def mapping_append_def)
    done
qed

lemma copy_of_simps:
  "member_id (copy_of i m s e r) = i"
  "reference_member (copy_of i m s e r) = r"
  "(copy_of i m s e r)\<lparr>reference_member := r'\<rparr> = copy_of i m s e r'"
  by (simp_all add: copy_of_def)

lemma portal_resolve:
  "resolve_references [(1, [5, 7]), (2, [6, 8])]
        [5 \<mapsto> copy_of 5 member_1 (moved 5 node_a 10 0 0) (moved 6 node_b 10 0 0) None,
                 6 \<mapsto> copy_of 6 member_2 (moved 7 node_d 10 0 0) (moved 8 node_c 10 0 0) (Some 1),
                 7 \<mapsto> copy_of 7 member_1 (moved 9 node_a 20 0 0) (moved 10 node_b 20 0 0) None,
                 8 \<mapsto> copy_of 8 member_2 (moved 11 node_d 20 0 0) (moved 12 node_c 20 0 0) (Some 1)]
   = Inr [5 \<mapsto> copy_of 5 member_1 (moved 5 node_a 10 0 0) (moved 6 node_b 10 0 0) None,
                 6 \<mapsto> copy_of 6 member_2 (moved 7 node_d 10 0 0) (moved 8 node_c 10 0 0) (Some 5),
                 7 \<mapsto> copy_of 7 member_1 (moved 9 node_a 20 0 0) (moved 10 node_b 20 0 0) None,
                 8 \<mapsto> copy_of 8 member_2 (moved 11 node_d 20 0 0) (moved 12 node_c 20 0 0) (Some 5)]"
  by (simp add: resolve_references_def resolve_reference_def first_duplicate_def copy_of_simps fun_upd_twist)

lemma portal_three_copies:
  "create_combined_model_pattern portal 3 (10, 0, 0) frame_counters
   = Inr (portal_tripled, \<lparr>node_counter = 13, member_counter = 9, member_set_counter = 6\<rparr>)"
proof -
  have 0: "fold (\<lambda>original_member_set m. add_member_set m [original_member_set])
              (get_all_member_sets portal) FERS = portal"
    by (simp add: get_all_member_sets_def portal_def add_member_set_def FERS_def)
  show ?thesis
    apply (simp only: create_combined_model_pattern_def 0 portal_node_pass Let_def prod.case
      portal_member_pass sum.case build_state.select_convs portal_resolve)
    apply (simp add: portal_tripled_def get_all_member_sets_def portal_def FERS_def
         read_member_set_def copy_of_simps)
    done
qed

lemma beams_nodes: "get_all_nodes beams = [node_d, node_c, node_b]"
  by (simp add: get_all_nodes_def beams_def set_2_def member_2_def member_3_def plain_member_def
      FERS_def nodes_step_def node_step_def node_b_def node_c_def node_d_def)

lemma beams_node_pass:
  "fold (copy_nodes beams (10, 0, 0)) [1..2 - 1] (Map.empty, frame_counters) =
    (beams_node_mapping, frame_counters\<lparr>node_counter := 8\<rparr>)"
  unfolding beams_node_mapping_def
  apply (simp add: upto_rec1 copy_nodes_def beams_nodes)
  apply (simp add: copy_node_fresh v0_def v1_def v2_def frame_counters_def)
  apply (simp add: node_b_def node_c_def node_d_def)
  done

lemma beams_lookups:
  "lookup_node beams_node_mapping [4, 1] = Inr (moved 5 node_d 10 0 0)"
  "lookup_node beams_node_mapping [3, 1] = Inr (moved 6 node_c 10 0 0)"
  "lookup_node beams_node_mapping [2, 1] = Inr (moved 7 node_b 10 0 0)"
  by (simp_all add: lookup_node_def beams_node_mapping_def)

lemma beams_member_pass:
  "fold_err (copy_member_sets beams beams_node_mapping) [1..2 - 1]
     (beams, \<lparr>ctr = frame_counters\<lparr>node_counter := 8\<rparr>, store = Map.empty, mapping = []\<rparr>)
   = Inr (FERS\<lparr>member_sets := [set_2,
        set_2\<lparr>member_set_id := 4, members :=
          [copy_of 5 member_2 (moved 5 node_d 10 0 0) (moved 6 node_c 10 0 0) (Some 1),
           copy_of 6 member_3 (moved 7 node_b 10 0 0) (moved 6 node_c 10 0 0) None]\<rparr>]\<rparr>,
      \<lparr>ctr = \<lparr>node_counter = 8, member_counter = 7, member_set_counter = 5\<rparr>,
        store = [5 \<mapsto> copy_of 5 member_2 (moved 5 node_d 10 0 0) (moved 6 node_c 10 0 0) (Some 1),
                 6 \<mapsto> copy_of 6 member_3 (moved 7 node_b 10 0 0) (moved 6 node_c 10 0 0) None],
        mapping = [(2, [5]), (3, [6])]\<rparr>)"
proof -
  have m3: "reference_node member_3 = None" "member_material member_3 = None"
     "node_id (start_node member_3) = 2" "node_id (end_node member_3) = 3" "member_id member_3 = 3"
     "reference_member member_3 = None"
    by (simp_all add: member_3_def plain_member_def node_b_def node_c_def)
  have m2: "reference_node member_2 = None" "member_material member_2 = None"
     "node_id (start_node member_2) = 4" "node_id (end_node member_2) = 3" "member_id member_2 = 2"
     "reference_member member_2 = Some 1"
    by (simp_all add: member_2_def plain_member_def node_d_def node_c_def)
  have s2: "members set_2 = [member_2, member_3]" by (simp add: set_2_def)
  show ?thesis
    by (simp add: upto_rec1 copy_member_sets_def get_all_member_sets_def beams_def FERS_def
        copy_member_set_def s2 copy_member_plain m3 m2 beams_lookups frame_counters_def MemberSet_def
        add_member_set_def mapping_append_def)
qed

lemma beams_resolve:
  "resolve_references [(2, [5]), (3, [6])]
        [5 \<mapsto> copy_of 5 member_2 (moved 5 node_d 10 0 0) (moved 6 node_c 10 0 0) (Some 1),
         6 \<mapsto> copy_of 6 member_3 (moved 7 node_b 10 0 0) (moved 6 node_c 10 0 0) None]
   = Inr [5 \<mapsto> copy_of 5 member_2 (moved 5 node_d 10 0 0) (moved 6 node_c 10 0 0) None,
         6 \<mapsto> copy_of 6 member_3 (moved 7 node_b 10 0 0) (moved 6 node_c 10 0 0) None]"
  by (simp add: resolve_references_def resolve_reference_def first_duplicate_def copy_of_simps fun_upd_twist)

lemma beams_two_copies:
  "create_combined_model_pattern beams 2 (10, 0, 0) frame_counters
   = Inr (beams_doubled, \<lparr>node_counter = 8, member_counter = 7, member_set_counter = 5\<rparr>)"
proof -
  have 0: "fold (\<lambda>original_member_set m. add_member_set m [original_member_set])
              (get_all_member_sets beams) FERS = beams"
    by (simp add: get_all_member_sets_def beams_def add_member_set_def FERS_def)
  show ?thesis
    apply (simp only: create_combined_model_pattern_def 0 beams_node_pass Let_def prod.case
      beams_member_pass sum.case build_state.select_convs beams_resolve)
    apply (simp add: beams_doubled_def get_all_member_sets_def beams_def FERS_def
         read_member_set_def copy_of_simps)
    done
qed

lemma column_nodes: "get_all_nodes column = [node_a, node_b]"
  by (simp add: get_all_nodes_def column_def set_3_def member_4_def plain_member_def
      FERS_def nodes_step_def node_step_def node_a_def node_b_def)

lemma column_node_pass:
  "fold (copy_nodes column (10, 0, 0)) [1..2 - 1] (Map.empty, frame_counters) =
    ([ [1, 1] \<mapsto> moved 5 node_a 10 0 0, [2, 1] \<mapsto> moved 6 node_b 10 0 0],
     frame_counters\<lparr>node_counter := 7\<rparr>)"
  apply (simp add: upto_rec1 copy_nodes_def column_nodes)
  apply (simp add: copy_node_fresh v0_def v1_def v2_def frame_counters_def)
  apply (simp add: node_a_def node_b_def)
  done

lemma column_fails:
  "create_combined_model_pattern column 2 (10, 0, 0) frame_counters = Inl (KeyError_tuple [3, 1])"
proof -
  have 0: "fold (\<lambda>original_member_set m. add_member_set m [original_member_set])
              (get_all_member_sets column) FERS = column"
    by (simp add: get_all_member_sets_def column_def add_member_set_def FERS_def)
  have m4: "reference_node member_4 = Some node_c"
     "node_id (start_node member_4) = 1" "node_id (end_node member_4) = 2" "node_id node_c = 3"
    by (simp_all add: member_4_def plain_member_def node_a_def node_b_def node_c_def)
  show ?thesis
    apply (simp only: create_combined_model_pattern_def 0 column_node_pass Let_def prod.case)
    apply (simp add: upto_rec1 copy_member_sets_def get_all_member_sets_def column_def FERS_def
        copy_member_set_def set_3_def copy_member_def m4 lookup_node_def)
    done
qed

lemma portal_translated_nodes:
  "fold (translate_node (10, 0, 0)) (get_all_nodes portal) (Map.empty, frame_counters)
   = ([1 \<mapsto> (moved 5 node_a 10 0 0)\<lparr>nodal_support := None, node_classification := None\<rparr>,
       2 \<mapsto> moved 6 node_b 10 0 0, 4 \<mapsto> moved 7 node_d 10 0 0, 3 \<mapsto> moved 8 node_c 10 0 0],
      frame_counters\<lparr>node_counter := 9\<rparr>)"
  by (simp add: portal_nodes translate_node_def Node_def moved_def v0_def v1_def v2_def
      node_a_def node_b_def node_c_def node_d_def frame_counters_def)

lemma rebuild_member_plain:
  "lookup_id nm (node_id (start_node m)) = Inr s \<Longrightarrow>
   lookup_id nm (node_id (end_node m)) = Inr e \<Longrightarrow>
   member_material m = None \<Longrightarrow> rotation_angle m = None \<Longrightarrow> chi m = None \<Longrightarrow>
   reference_node m = None \<Longrightarrow>
   rebuild_member nm m (new_members, c) =
     Inr (new_members @ [copy_of (member_counter c) m s e None],
          c\<lparr>member_counter := Suc (member_counter c)\<rparr>)"
  by (cases m) (simp add: rebuild_member_def Member_def copy_of_def)

lemma portal_translation:
  "translate_model no_defaults portal (10, 0, 0) frame_counters
   = Inr (portal_translated, \<lparr>node_counter = 9, member_counter = 7, member_set_counter = 4\<rparr>)"
proof -
  have m1: "reference_node member_1 = None" "member_material member_1 = None"
     "node_id (start_node member_1) = 1" "node_id (end_node member_1) = 2"
     "rotation_angle member_1 = None" "chi member_1 = None"
    by (simp_all add: member_1_def plain_member_def node_a_def node_b_def)
  have m2: "reference_node member_2 = None" "member_material member_2 = None"
     "node_id (start_node member_2) = 4" "node_id (end_node member_2) = 3"
     "rotation_angle member_2 = None" "chi member_2 = None"
    by (simp_all add: member_2_def plain_member_def node_d_def node_c_def)
  show ?thesis
    apply (simp only: translate_model_def portal_translated_nodes prod.case)
    apply (simp add: get_all_member_sets_def portal_def FERS_def rebuild_member_set_def set_1_def
         rebuild_member_plain m1 m2 lookup_id_def MemberSet_def add_member_set_def
         portal_translated_def no_defaults_def frame_counters_def)
    done
qed

section \<open>Three copies of the portal\<close>

lemma portal_tripled_sets:
  "member_sets portal_tripled =
     [set_1,
      set_1\<lparr>member_set_id := 4, members :=
        [copy_of 5 member_1 (moved 5 node_a 10 0 0) (moved 6 node_b 10 0 0) None,
         copy_of 6 member_2 (moved 7 node_d 10 0 0) (moved 8 node_c 10 0 0) (Some 5)]\<rparr>,
      set_1\<lparr>member_set_id := 5, members :=
        [copy_of 7 member_1 (moved 9 node_a 20 0 0) (moved 10 node_b 20 0 0) None,
         copy_of 8 member_2 (moved 11 node_d 20 0 0) (moved 12 node_c 20 0 0) (Some 5)]\<rparr>]"
  by (simp add: portal_tripled_def FERS_def)

text \<open>
  C1, at \<open>count = 3\<close>. In the portal, \<open>member_2\<close> refers to \<open>member_1\<close>. The copies of
  \<open>member_1\<close> are the members 5 (copy 1) and 7 (copy 2), those of \<open>member_2\<close> are 6
  (copy 1) and 8 (copy 2). Member 8, of copy 2, refers to member 5, the duplicate of
  \<open>member_1\<close> in copy 1, and not to member 7: the last loop takes the first entry of
  \<^verbatim>\<open>member_mapping[member]\<close> for every copy.
\<close>

theorem second_copy_refers_into_first_copy:
  "create_combined_model_pattern portal 3 (10, 0, 0) frame_counters
     = Inr (portal_tripled, \<lparr>node_counter = 13, member_counter = 9, member_set_counter = 6\<rparr>) \<and>
   map (\<lambda>ms. map (\<lambda>m. (member_id m, reference_member m)) (members ms))
       (member_sets portal_tripled)
     = [ [(1, None), (2, Some 1)], [(5, None), (6, Some 5)], [(7, None), (8, Some 5)]]"
  by (simp add: portal_three_copies portal_tripled_sets copy_of_simps set_1_def member_1_def
        member_2_def plain_member_def)

text \<open>
  C3, in the same run. The nodes \<open>node_b\<close> and \<open>node_d\<close> of the portal are two objects at
  the point \<open>(0, 0, 3)\<close>. The first copy holds two new nodes at \<open>(10, 0, 3)\<close>, with the
  ids 6 and 7: \<^verbatim>\<open>new_node_coords not in node_mapping\<close> asks for a tuple of three
  coordinates in a dictionary whose keys are the pairs \<^verbatim>\<open>(original_node.id, i)\<close>, so it
  holds every time, and every source node gets a new node in every copy.
\<close>

theorem coincident_nodes_are_copied_twice:
  "create_combined_model_pattern portal 3 (10, 0, 0) frame_counters
     = Inr (portal_tripled, \<lparr>node_counter = 13, member_counter = 9, member_set_counter = 6\<rparr>) \<and>
   map (\<lambda>n. (node_id n, X n, Y n, Z n)) (end_nodes (members set_1))
     = [(1, 0, 0, 0), (2, 0, 0, 3), (4, 0, 0, 3), (3, 4, 0, 3)] \<and>
   map (\<lambda>n. (node_id n, X n, Y n, Z n)) (end_nodes (members (member_sets portal_tripled ! 1)))
     = [(5, 10, 0, 0), (6, 10, 0, 3), (7, 10, 0, 3), (8, 14, 0, 3)]"
  by (simp add: portal_three_copies portal_tripled_sets end_nodes_def copy_of_def moved_def
        set_1_def member_1_def member_2_def plain_member_def node_a_def node_b_def node_c_def
        node_d_def)

section \<open>The portal translated\<close>

text \<open>
  C4, on the portal. \<open>node_a\<close> carries the nodal support 7 and the classification
  \<open>base\<close>. \<^verbatim>\<open>translate_model\<close> calls \<^verbatim>\<open>Node(X=..., Y=..., Z=...)\<close> with the coordinates
  alone: the new node that stands for \<open>node_a\<close> lies at \<open>(10, 0, 0)\<close> and has neither
  the support nor the classification.
\<close>

theorem translate_model_drops_support_and_classification:
  "translate_model no_defaults portal (10, 0, 0) frame_counters
     = Inr (portal_translated,
            \<lparr>node_counter = 9, member_counter = 7, member_set_counter = 4\<rparr>) \<and>
   map (\<lambda>n. (node_id n, X n, Y n, Z n, nodal_support n, node_classification n))
       (end_nodes (members set_1))
     = [(1, 0, 0, 0, Some 7, Some ''base''), (2, 0, 0, 3, None, None),
        (4, 0, 0, 3, None, None), (3, 4, 0, 3, None, None)] \<and>
   map (\<lambda>n. (node_id n, X n, Y n, Z n, nodal_support n, node_classification n))
       (end_nodes (members (member_sets portal_translated ! 0)))
     = [(5, 10, 0, 0, None, None), (6, 10, 0, 3, None, None),
        (7, 10, 0, 3, None, None), (8, 14, 0, 3, None, None)]"
  by (simp add: portal_translation portal_translated_def FERS_def end_nodes_def copy_of_def
        moved_def set_1_def member_1_def member_2_def plain_member_def node_a_def node_b_def
        node_c_def node_d_def)

section \<open>Lookup by classification\<close>

lemma pure_imp_match: "pure_word_token w p \<Longrightarrow> word_token_match w p"
proof -
  assume "pure_word_token w p"
  then have "p \<noteq> []" "\<forall>c\<in>set p. w c" by (simp_all add: pure_word_token_def list_all_iff)
  then have d: "dropWhile w p = []" by simp
  show ?thesis unfolding word_token_match_def Let_def d using \<open>p \<noteq> []\<close> by simp
qed

lemma match_chars:
  assumes "word_token_match w p"
  shows "p \<noteq> [] \<and> list_all (\<lambda>c. w c \<or> c = newline) p"
proof -
  from assms have l: "length (dropWhile w p) < length p"
    and r: "dropWhile w p = [] \<or> dropWhile w p = [newline]"
    by (simp_all add: word_token_match_def Let_def)
  have t: "\<forall>c\<in>set (takeWhile w p). w c" by (auto dest: set_takeWhileD)
  have d: "\<forall>c\<in>set (dropWhile w p). c = newline"
  proof (rule disjE [OF r])
    assume e: "dropWhile w p = []"
    show ?thesis unfolding e by simp
  next
    assume e: "dropWhile w p = [newline]"
    show ?thesis unfolding e by simp
  qed
  have "set p = set (takeWhile w p) \<union> set (dropWhile w p)"
    by (metis set_append takeWhile_dropWhile_id)
  with t d have "\<forall>c\<in>set p. w c \<or> c = newline" by blast
  moreover from l have "p \<noteq> []" by auto
  ultimately show ?thesis by (simp add: list_all_iff)
qed

text \<open>
  C8. \<^verbatim>\<open>get_membersets_by_classification\<close> keeps the member sets whose classification
  contains the filter as a substring when the filter is a pure word-character token; for
  every other filter the result is that of compiling the filter as a regular expression
  and keeping the member sets in whose classification \<^verbatim>\<open>search\<close> finds it, and when the
  filter does not compile, the error of the compiler is what the caller gets. The
  function decides with \<^verbatim>\<open>re.match(r"^\w+$", ...)\<close>, which also accepts a token followed
  by one final newline and then tests for the substring; such a filter has no
  metacharacter, and the hypothesis says what the engine does with it: a pattern of word
  characters and newlines compiles and is found exactly where it occurs as a substring.
\<close>

theorem classification_filter_substring_or_regex:
  assumes literal:
    "\<And>q. q \<noteq> [] \<Longrightarrow> list_all (\<lambda>c. word_char E c \<or> c = newline) q \<Longrightarrow>
       \<exists>compiled. re_compile E q = Inr compiled \<and> (\<forall>s. re_search E compiled s = sublist q s)"
  shows "(pure_word_token (word_char E) p \<longrightarrow>
            get_membersets_by_classification E self p
            = Inr (filter (\<lambda>ms. sublist p (classification ms)) (member_sets self))) \<and>
         (\<not> pure_word_token (word_char E) p \<longrightarrow>
            get_membersets_by_classification E self p
            = (case re_compile E p of
                 Inl e \<Rightarrow> Inl e
               | Inr compiled \<Rightarrow>
                   Inr (filter (\<lambda>ms. re_search E compiled (classification ms))
                          (member_sets self))))"
proof (intro conjI impI)
  assume "pure_word_token (word_char E) p"
  then have "word_token_match (word_char E) p" by (rule pure_imp_match)
  then show "get_membersets_by_classification E self p
            = Inr (filter (\<lambda>ms. sublist p (classification ms)) (member_sets self))"
    by (simp add: get_membersets_by_classification_def)
next
  assume "\<not> pure_word_token (word_char E) p"
  show "get_membersets_by_classification E self p
            = (case re_compile E p of
                 Inl e \<Rightarrow> Inl e
               | Inr compiled \<Rightarrow>
                   Inr (filter (\<lambda>ms. re_search E compiled (classification ms))
                          (member_sets self)))"
  proof (cases "word_token_match (word_char E) p")
    case False
    then show ?thesis by (simp add: get_membersets_by_classification_def)
  next
    case True
    from match_chars [OF True] literal [of p]
    obtain compiled where c: "re_compile E p = Inr compiled"
      and s: "\<And>s. re_search E compiled s = sublist p s" by blast
    from True show ?thesis by (simp add: get_membersets_by_classification_def c s)
  qed
qed

lemma literal_engine_literal:
  assumes "q \<noteq> []" "list_all (\<lambda>c. word_char literal_engine c \<or> c = newline) q"
  shows "\<exists>compiled. re_compile literal_engine q = Inr compiled \<and>
           (\<forall>s. re_search literal_engine compiled s = sublist q s)"
proof -
  have "q \<noteq> ''(''"
  proof
    assume "q = ''(''"
    with assms(2) show False
      by (simp add: literal_engine_def ascii_word_char_def newline_def)
  qed
  then show ?thesis by (simp add: literal_engine_def)
qed

theorem classification_filter_substring_or_regex_witness:
  "get_membersets_by_classification literal_engine frame ''beam'' = Inr [set_2] \<and>
   get_membersets_by_classification literal_engine frame ''b.am'' = Inr [] \<and>
   get_membersets_by_classification literal_engine frame ''(''
     = Inl (re_error ''missing ), unterminated subpattern'')"
proof -
  have cls: "map classification (member_sets frame) = [''portal'', ''beam_1'']"
    "member_sets frame = [set_1, set_2]"
    "classification set_1 = ''portal''" "classification set_2 = ''beam_1''"
    by (simp_all add: frame_def FERS_def set_1_def set_2_def)
  have 1: "pure_word_token (word_char literal_engine) ''beam''"
    by (simp add: pure_word_token_def literal_engine_def ascii_word_char_def)
  have 2: "\<not> pure_word_token (word_char literal_engine) ''b.am''"
    by (simp add: pure_word_token_def literal_engine_def ascii_word_char_def)
  have 3: "\<not> pure_word_token (word_char literal_engine) ''(''"
    by (simp add: pure_word_token_def literal_engine_def ascii_word_char_def)
  note t = classification_filter_substring_or_regex [of literal_engine, OF literal_engine_literal]
  from t [of "''beam''" frame] 1
  have a: "get_membersets_by_classification literal_engine frame ''beam''
      = Inr (filter (\<lambda>ms. sublist ''beam'' (classification ms)) (member_sets frame))"
    by blast
  from t [of "''b.am''" frame] 2
  have b: "get_membersets_by_classification literal_engine frame ''b.am''
      = (case re_compile literal_engine ''b.am'' of
                 Inl e \<Rightarrow> Inl e
               | Inr compiled \<Rightarrow>
                   Inr (filter (\<lambda>ms. re_search literal_engine compiled (classification ms))
                          (member_sets frame)))"
    by blast
  from t [of "''(''" frame] 3
  have c: "get_membersets_by_classification literal_engine frame ''(''
      = (case re_compile literal_engine ''('' of
                 Inl e \<Rightarrow> Inl e
               | Inr compiled \<Rightarrow>
                   Inr (filter (\<lambda>ms. re_search literal_engine compiled (classification ms))
                          (member_sets frame)))"
    by blast
  show ?thesis
    unfolding a b c
    by (simp add: cls literal_engine_def sublist_Cons_right)
qed

section \<open>The loops of \<^verbatim>\<open>create_combined_model_pattern\<close>, in general\<close>

lemma copy_node_always:
  "pair_keys nm \<Longrightarrow>
   copy_node i t n (nm, c) =
     (nm([real (node_id n), real_of_int i] \<mapsto> moved (node_counter c) n (v0 t) (v1 t) (v2 t)),
      c\<lparr>node_counter := Suc (node_counter c)\<rparr>)"
proof -
  assume p: "pair_keys nm"
  have "nm [X n + v0 t, Y n + v1 t, Z n + v2 t] = None"
  proof (rule ccontr)
    assume "nm [X n + v0 t, Y n + v1 t, Z n + v2 t] \<noteq> None"
    with p have "length [X n + v0 t, Y n + v1 t, Z n + v2 t] = 2"
      unfolding pair_keys_def by blast
    then show False by simp
  qed
  then show ?thesis by (rule copy_node_fresh)
qed

lemma pair_keys_upd: "pair_keys nm \<Longrightarrow> pair_keys (nm([a, b] \<mapsto> n))"
  by (simp add: pair_keys_def)

lemma fold_copy_node:
  "pair_keys nm \<Longrightarrow> fold (copy_node i t) ns (nm, c) = (nm', c') \<Longrightarrow>
     pair_keys nm' \<and>
     (\<forall>k. nm' k \<noteq> None \<longleftrightarrow>
          nm k \<noteq> None \<or> k \<in> (\<lambda>n. [real (node_id n), real_of_int i]) ` set ns)"
proof (induction ns arbitrary: nm c)
  case Nil
  then show ?case by simp
next
  case (Cons n ns)
  let ?nm1 = "nm([real (node_id n), real_of_int i] \<mapsto>
                moved (node_counter c) n (v0 t) (v1 t) (v2 t))"
  have p1: "pair_keys ?nm1" using Cons.prems(1) by (rule pair_keys_upd)
  from Cons.prems have "fold (copy_node i t) ns (?nm1, c\<lparr>node_counter := Suc (node_counter c)\<rparr>)
      = (nm', c')"
    by (simp add: copy_node_always)
  from Cons.IH [OF p1 this] show ?case by auto
qed

lemma fold_copy_nodes:
  "pair_keys nm \<Longrightarrow> fold (copy_nodes M v) js (nm, c) = (nm', c') \<Longrightarrow>
     pair_keys nm' \<and>
     (\<forall>k. nm' k \<noteq> None \<longleftrightarrow>
          nm k \<noteq> None \<or>
          (\<exists>n\<in>set (get_all_nodes M). \<exists>j\<in>set js. k = [real (node_id n), real_of_int j]))"
proof (induction js arbitrary: nm c)
  case Nil
  then show ?case by simp
next
  case (Cons j js)
  obtain nm1 c1 where s: "copy_nodes M v j (nm, c) = (nm1, c1)"
    by (cases "copy_nodes M v j (nm, c)")
  then have f: "fold (copy_node j (v0 v * real_of_int j, v1 v * real_of_int j,
       v2 v * real_of_int j)) (get_all_nodes M) (nm, c) = (nm1, c1)"
    by (simp add: copy_nodes_def)
  note 1 = fold_copy_node [OF Cons.prems(1) f]
  from Cons.prems(2) s have "fold (copy_nodes M v) js (nm1, c1) = (nm', c')" by simp
  from Cons.IH [OF conjunct1 [OF 1] this] 1 show ?case by auto
qed

lemma node_pass_dom:
  assumes "fold (copy_nodes M v) js (Map.empty, c) = (nm, c1)"
  shows "nm [real a, real_of_int j] \<noteq> None
         \<longleftrightarrow> a \<in> node_id ` set (get_all_nodes M) \<and> j \<in> set js"
proof -
  have "pair_keys Map.empty" by (simp add: pair_keys_def)
  from fold_copy_nodes [OF this assms] show ?thesis by auto
qed

lemma node_ids_of_model:
  "node_id ` set (get_all_nodes M) = set (end_node_ids (member_walk M))"
proof -
  have "node_id ` set (get_all_nodes M) = node_id ` set (node_walk M)"
    by (simp add: get_all_nodes_first_seen first_seen_keys)
  also have "\<dots> = set (end_node_ids (member_walk M))"
    by (auto simp: node_walk_def end_node_ids_def)
  finally show ?thesis .
qed

lemma mapping_append_alt:
  "mapping_append k v mm
   = map (append_at k v) (if map_of mm k = None then mm @ [(k, [])] else mm)"
  by (simp add: mapping_append_def append_at_def Let_def)

lemma append_at_simps:
  "append_at k v (k, l) = (k, l @ [v])"
  "k' \<noteq> k \<Longrightarrow> append_at k v (k', l) = (k', l)"
  by (simp_all add: append_at_def)

lemma new_ids_simps:
  "new_ids [] = []"
  "new_ids ((k, l) # mm) = l @ new_ids mm"
  "new_ids (mm @ mm') = new_ids mm @ new_ids mm'"
  by (simp_all add: new_ids_def)

lemma append_at_fst: "map fst (map (append_at k v) mm) = map fst mm"
  by (induction mm) (auto simp: append_at_def)

lemma append_at_absent: "k \<notin> fst ` set mm \<Longrightarrow> map (append_at k v) mm = mm"
  by (induction mm) (auto simp: append_at_def)

lemma append_at_ids:
  "set (new_ids (map (append_at k v) mm))
   = set (new_ids mm) \<union> (if k \<in> fst ` set mm then {v} else {})"
proof (induction mm)
  case Nil
  show ?case by (simp add: new_ids_simps)
next
  case (Cons e mm)
  obtain k' l where e: "e = (k', l)" by (cases e)
  show ?case
  proof (cases "k' = k")
    case True
    with Cons.IH show ?thesis by (auto simp: e append_at_simps new_ids_simps)
  next
    case False
    with Cons.IH show ?thesis by (auto simp: e append_at_simps new_ids_simps)
  qed
qed

lemma append_at_distinct:
  "distinct (map fst mm) \<Longrightarrow> distinct (new_ids mm) \<Longrightarrow> v \<notin> set (new_ids mm) \<Longrightarrow>
   distinct (new_ids (map (append_at k v) mm))"
proof (induction mm)
  case Nil
  then show ?case by (simp add: new_ids_simps)
next
  case (Cons e mm)
  obtain k' l where e: "e = (k', l)" by (cases e)
  from Cons.prems have d: "distinct (map fst mm)" "distinct (new_ids mm)" "v \<notin> set (new_ids mm)"
    and k': "k' \<notin> fst ` set mm" and l: "distinct l" "set l \<inter> set (new_ids mm) = {}" "v \<notin> set l"
    by (auto simp: e new_ids_simps)
  show ?case
  proof (cases "k' = k")
    case True
    with k' have same: "map (append_at k v) mm = mm" by (simp add: append_at_absent)
    have "new_ids (map (append_at k v) (e # mm)) = (l @ [v]) @ new_ids mm"
      unfolding e list.map same using True by (simp add: append_at_simps new_ids_simps)
    with d l show ?thesis by auto
  next
    case False
    have sub: "set (new_ids (map (append_at k v) mm)) \<subseteq> insert v (set (new_ids mm))"
      by (auto simp: append_at_ids split: if_splits)
    have "new_ids (map (append_at k v) (e # mm)) = l @ new_ids (map (append_at k v) mm)"
      using False by (simp add: e append_at_simps new_ids_simps)
    with sub Cons.IH [OF d] l show ?thesis by auto
  qed
qed

lemma append_at_nonempty:
  "\<forall>l\<in>snd ` set mm. l \<noteq> [] \<Longrightarrow> \<forall>l\<in>snd ` set (map (append_at k v) mm). l \<noteq> []"
proof (induction mm)
  case Nil
  then show ?case by simp
next
  case (Cons e mm)
  obtain k' l where e: "e = (k', l)" by (cases e)
  from Cons.prems have "l \<noteq> []" "\<forall>l\<in>snd ` set mm. l \<noteq> []" by (auto simp: e)
  with Cons.IH show ?case by (cases "k' = k") (auto simp: e append_at_simps)
qed

lemma map_of_None_keys: "map_of mm k = None \<longleftrightarrow> k \<notin> fst ` set mm"
  by (simp add: map_of_eq_None_iff)

lemma mapping_append_keys:
  "fst ` set (mapping_append k v mm) = insert k (fst ` set mm)"
proof -
  have "fst ` set (mapping_append k v mm) = set (map fst (mapping_append k v mm))" by simp
  also have "\<dots> = insert k (fst ` set mm)"
    unfolding mapping_append_alt append_at_fst by (auto simp: map_of_None_keys)
  finally show ?thesis .
qed

lemma mapping_append_distinct_keys:
  "distinct (map fst mm) \<Longrightarrow> distinct (map fst (mapping_append k v mm))"
  unfolding mapping_append_alt append_at_fst by (auto simp: map_of_None_keys)

lemma mapping_append_ids:
  "set (new_ids (mapping_append k v mm)) = insert v (set (new_ids mm))"
  unfolding mapping_append_alt append_at_ids
  by (auto simp: map_of_None_keys new_ids_def)

lemma mapping_append_distinct_ids:
  assumes "distinct (map fst mm)" "distinct (new_ids mm)" "v \<notin> set (new_ids mm)"
  shows "distinct (new_ids (mapping_append k v mm))"
proof -
  let ?mm = "if map_of mm k = None then mm @ [(k, [])] else mm"
  have "distinct (map fst ?mm)" using assms(1) by (auto simp: map_of_None_keys)
  moreover have "new_ids ?mm = new_ids mm" by (simp add: new_ids_def)
  ultimately show ?thesis
    unfolding mapping_append_alt using assms(2,3) by (simp add: append_at_distinct)
qed

lemma mapping_append_nonempty:
  assumes "\<forall>l\<in>snd ` set mm. l \<noteq> []"
  shows "\<forall>l\<in>snd ` set (mapping_append k v mm). l \<noteq> []"
proof (cases "map_of mm k = None")
  case False
  have "mapping_append k v mm = map (append_at k v) mm"
    unfolding mapping_append_alt using False by simp
  then show ?thesis using append_at_nonempty [OF assms] by simp
next
  case True
  then have k: "k \<notin> fst ` set mm" by (simp add: map_of_None_keys)
  have "mapping_append k v mm = map (append_at k v) (mm @ [(k, [])])"
    unfolding mapping_append_alt using True by simp
  also have "\<dots> = mm @ [(k, [v])]"
    using k by (simp add: append_at_absent append_at_simps)
  finally show ?thesis using assms by auto
qed

lemma copy_member_Inr:
  "copy_member i nm m st = Inr (m', st') \<Longrightarrow>
     member_id m' = member_counter (ctr st) \<and>
     reference_member m' = reference_member m \<and>
     ctr st' = (ctr st)\<lparr>member_counter := Suc (member_counter (ctr st))\<rparr> \<and>
     store st' = (store st)(member_id m' \<mapsto> m') \<and>
     mapping st' = mapping_append (member_id m) (member_id m') (mapping st)"
  by (auto simp: copy_member_def lookup_node_def Member_def split: option.splits sum.splits)

lemma copy_member_fails:
  assumes "good_keys nm i ids" "node_id (start_node m) \<in> ids" "node_id (end_node m) \<in> ids"
    "reference_node m = Some r" "node_id r \<notin> ids"
  shows "copy_member i nm m st = Inl (KeyError_tuple [real (node_id r), real_of_int i])"
proof -
  from assms obtain s e where
    "nm [real (node_id (start_node m)), real_of_int i] = Some s"
    "nm [real (node_id (end_node m)), real_of_int i] = Some e"
    "nm [real (node_id r), real_of_int i] = None"
    unfolding good_keys_def by (metis not_None_eq)
  with assms(4) show ?thesis by (simp add: copy_member_def lookup_node_def)
qed

lemma copy_member_succeeds:
  assumes "good_keys nm i ids" "node_id (start_node m) \<in> ids" "node_id (end_node m) \<in> ids"
    "first_dangling ids [m] = None"
  shows "\<exists>m' st'. copy_member i nm m st = Inr (m', st')"
proof -
  from assms obtain s e where se:
    "nm [real (node_id (start_node m)), real_of_int i] = Some s"
    "nm [real (node_id (end_node m)), real_of_int i] = Some e"
    unfolding good_keys_def by (metis not_None_eq)
  show ?thesis
  proof (cases "reference_node m")
    case None
    with se show ?thesis by (simp add: copy_member_def lookup_node_def Member_def)
  next
    case (Some r)
    with assms(4) have "node_id r \<in> ids" by (simp split: if_splits)
    with assms(1) obtain n where "nm [real (node_id r), real_of_int i] = Some n"
      unfolding good_keys_def by (metis not_None_eq)
    with se Some show ?thesis by (simp add: copy_member_def lookup_node_def Member_def)
  qed
qed

lemma copy_member_inv:
  assumes "pass_inv st news" "copy_member i nm m st = Inr (m', st')"
  shows "pass_inv st' (news @ [m'])"
proof -
  note r = copy_member_Inr [OF assms(2)]
  from r have id: "member_id m' = member_counter (ctr st)" by simp
  from r have c: "member_counter (ctr st') = Suc (member_counter (ctr st))" by simp
  from r have s: "store st' = (store st)(member_id m' \<mapsto> m')" by simp
  from r have mp: "mapping st' = mapping_append (member_id m) (member_id m') (mapping st)" by simp
  from assms(1) have old: "\<forall>m''\<in>set news. store st (member_id m'') = Some m'' \<and>
        member_id m'' \<in> set (new_ids (mapping st))"
    and d: "distinct (new_ids (mapping st))"
    and lt: "\<forall>n\<in>set (new_ids (mapping st)). n < member_counter (ctr st)"
    and ne: "\<forall>l\<in>snd ` set (mapping st). l \<noteq> []"
    and dk: "distinct (map fst (mapping st))"
    unfolding pass_inv_def by simp_all
  from lt id have fresh: "member_id m' \<notin> set (new_ids (mapping st))" by auto
  have 1: "\<forall>m''\<in>set (news @ [m']). store st' (member_id m'') = Some m'' \<and>
        member_id m'' \<in> set (new_ids (mapping st'))"
    using old fresh by (auto simp: s mp mapping_append_ids)
  have 2: "distinct (new_ids (mapping st'))"
    unfolding mp using dk d fresh by (rule mapping_append_distinct_ids)
  have 3: "\<forall>n\<in>set (new_ids (mapping st')). n < member_counter (ctr st')"
    using lt id by (auto simp: mp mapping_append_ids c)
  have 4: "\<forall>l\<in>snd ` set (mapping st'). l \<noteq> []"
    unfolding mp using ne by (rule mapping_append_nonempty)
  have 5: "distinct (map fst (mapping st'))"
    unfolding mp using dk by (rule mapping_append_distinct_keys)
  from 1 2 3 4 5 show ?thesis unfolding pass_inv_def by blast
qed

lemma copy_members_inv:
  "pass_inv st (old @ acc) \<Longrightarrow> copy_members i nm ms acc st = Inr (acc', st') \<Longrightarrow>
     pass_inv st' (old @ acc') \<and>
     map reference_member acc' = map reference_member acc @ map reference_member ms \<and>
     fst ` set (mapping st') = fst ` set (mapping st) \<union> member_id ` set ms"
proof (induction ms arbitrary: acc st)
  case Nil
  then show ?case by simp
next
  case (Cons m ms)
  from Cons.prems(2) obtain m1 st1 where 1: "copy_member i nm m st = Inr (m1, st1)"
    and 2: "copy_members i nm ms (acc @ [m1]) st1 = Inr (acc', st')"
    by (auto split: sum.splits)
  from copy_member_inv [OF Cons.prems(1) 1] have "pass_inv st1 (old @ acc @ [m1])" by simp
  from Cons.IH [OF this 2] copy_member_Inr [OF 1] show ?case
    by (auto simp: mapping_append_keys)
qed

lemma first_dangling_append:
  "first_dangling ids (xs @ ys)
   = (case first_dangling ids xs of Some r \<Rightarrow> Some r | None \<Rightarrow> first_dangling ids ys)"
  by (induction xs) (auto split: option.splits)

lemma copy_members_fails:
  "good_keys nm i ids \<Longrightarrow> set (end_node_ids ms) \<subseteq> ids \<Longrightarrow>
   first_dangling ids ms = Some r \<Longrightarrow>
   copy_members i nm ms acc st = Inl (KeyError_tuple [real (node_id r), real_of_int i])"
proof (induction ms arbitrary: acc st)
  case Nil
  then show ?case by simp
next
  case (Cons m ms)
  from Cons.prems(2) have se: "node_id (start_node m) \<in> ids" "node_id (end_node m) \<in> ids"
    and rest: "set (end_node_ids ms) \<subseteq> ids" by (simp_all add: end_node_ids_def)
  show ?case
  proof (cases "first_dangling ids [m]")
    case None
    from copy_member_succeeds [OF Cons.prems(1) se None]
    obtain m1 st1 where 1: "copy_member i nm m st = Inr (m1, st1)" by blast
    from None Cons.prems(3) have "first_dangling ids ms = Some r"
      using first_dangling_append [of ids "[m]" ms] by simp
    from Cons.IH [OF Cons.prems(1) rest this] 1 show ?thesis by simp
  next
    case (Some r')
    with Cons.prems(3) have "r' = r" using first_dangling_append [of ids "[m]" ms] by simp
    with Some have "reference_node m = Some r" "node_id r \<notin> ids"
      by (auto split: option.splits if_splits)
    from copy_member_fails [OF Cons.prems(1) se this] show ?thesis by simp
  qed
qed

lemma copy_members_succeeds:
  "good_keys nm i ids \<Longrightarrow> set (end_node_ids ms) \<subseteq> ids \<Longrightarrow>
   first_dangling ids ms = None \<Longrightarrow>
   \<exists>acc' st'. copy_members i nm ms acc st = Inr (acc', st')"
proof (induction ms arbitrary: acc st)
  case Nil
  then show ?case by simp
next
  case (Cons m ms)
  from Cons.prems(2) have se: "node_id (start_node m) \<in> ids" "node_id (end_node m) \<in> ids"
    and rest: "set (end_node_ids ms) \<subseteq> ids" by (simp_all add: end_node_ids_def)
  from Cons.prems(3) have n1: "first_dangling ids [m] = None" and n2: "first_dangling ids ms = None"
    using first_dangling_append [of ids "[m]" ms] by (auto split: option.splits)
  from copy_member_succeeds [OF Cons.prems(1) se n1]
  obtain m1 st1 where 1: "copy_member i nm m st = Inr (m1, st1)" by blast
  from Cons.IH [OF Cons.prems(1) rest n2, of "acc @ [m1]" st1] 1 show ?case by simp
qed

lemma pass_inv_ctr:
  "pass_inv st news \<Longrightarrow>
   pass_inv (st\<lparr>ctr := (ctr st)\<lparr>member_set_counter := k\<rparr>\<rparr>) news"
  by (simp add: pass_inv_def)

lemma copy_member_set_Inr:
  assumes "copy_member_set i nm ms (M, st) = Inr (M', st')"
  shows "\<exists>new_members st1.
           copy_members i nm (members ms) [] st = Inr (new_members, st1) \<and>
           member_sets M' = member_sets M @
             [\<lparr>member_set_id = member_set_counter (ctr st1), members = new_members,
               classification = classification ms, L_y = L_y ms, L_z = L_z ms\<rparr>] \<and>
           st' = st1\<lparr>ctr := (ctr st1)\<lparr>member_set_counter := Suc (member_set_counter (ctr st1))\<rparr>\<rparr>"
  using assms
  by (auto simp: copy_member_set_def MemberSet_def add_member_set_def split: sum.splits)

lemma copy_member_set_inv:
  assumes "copy_member_set i nm ms (M, st) = Inr (M', st')"
    "member_sets M = old @ nsets" "pass_inv st (concat (map members nsets))"
  shows "\<exists>ns. member_sets M' = old @ nsets @ [ns] \<and>
           pass_inv st' (concat (map members (nsets @ [ns]))) \<and>
           shape ns = shape ms \<and>
           fst ` set (mapping st') = fst ` set (mapping st) \<union> member_id ` set (members ms)"
proof -
  from copy_member_set_Inr [OF assms(1)] obtain new_members st1 where
    1: "copy_members i nm (members ms) [] st = Inr (new_members, st1)"
    and 2: "member_sets M' = member_sets M @
             [\<lparr>member_set_id = member_set_counter (ctr st1), members = new_members,
               classification = classification ms, L_y = L_y ms, L_z = L_z ms\<rparr>]"
    and 3: "st' = st1\<lparr>ctr := (ctr st1)\<lparr>member_set_counter := Suc (member_set_counter (ctr st1))\<rparr>\<rparr>"
    by blast
  from assms(3) have "pass_inv st (concat (map members nsets) @ [])" by simp
  note 4 = copy_members_inv [OF this 1]
  let ?ns = "\<lparr>member_set_id = member_set_counter (ctr st1), members = new_members,
               classification = classification ms, L_y = L_y ms, L_z = L_z ms\<rparr>"
  have a: "member_sets M' = old @ nsets @ [?ns]" using 2 assms(2) by simp
  have b: "pass_inv st' (concat (map members (nsets @ [?ns])))"
    unfolding 3 using 4 by (simp add: pass_inv_ctr)
  have c: "shape ?ns = shape ms" using 4 by (simp add: shape_def)
  have d: "fst ` set (mapping st') = fst ` set (mapping st) \<union> member_id ` set (members ms)"
    unfolding 3 using 4 by simp
  from a b c d show ?thesis by blast
qed

lemma copy_sets_inv:
  "fold_err (copy_member_set i nm) mss (M, st) = Inr (M', st') \<Longrightarrow>
   member_sets M = old @ nsets \<Longrightarrow> pass_inv st (concat (map members nsets)) \<Longrightarrow>
   \<exists>nsets'. member_sets M' = old @ nsets @ nsets' \<and>
     pass_inv st' (concat (map members (nsets @ nsets'))) \<and>
     map shape nsets' = map shape mss \<and>
     fst ` set (mapping st')
       = fst ` set (mapping st) \<union> member_id ` set (concat (map members mss))"
proof (induction mss arbitrary: M st nsets)
  case Nil
  then show ?case by simp
next
  case (Cons ms mss)
  from Cons.prems(1) obtain M1 st1 where 1: "copy_member_set i nm ms (M, st) = Inr (M1, st1)"
    and 2: "fold_err (copy_member_set i nm) mss (M1, st1) = Inr (M', st')"
    by (auto split: sum.splits)
  from copy_member_set_inv [OF 1 Cons.prems(2,3)] obtain ns where
    a: "member_sets M1 = old @ (nsets @ [ns])"
    and b: "pass_inv st1 (concat (map members (nsets @ [ns])))"
    and c: "shape ns = shape ms"
    and d: "fst ` set (mapping st1) = fst ` set (mapping st) \<union> member_id ` set (members ms)"
    by auto
  from Cons.IH [OF 2 a b] obtain nsets' where
    a': "member_sets M' = old @ (nsets @ [ns]) @ nsets'"
    and b': "pass_inv st' (concat (map members ((nsets @ [ns]) @ nsets')))"
    and c': "map shape nsets' = map shape mss"
    and d': "fst ` set (mapping st')
       = fst ` set (mapping st1) \<union> member_id ` set (concat (map members mss))"
    by blast
  have "member_sets M' = old @ nsets @ (ns # nsets')" using a' by simp
  moreover have "pass_inv st' (concat (map members (nsets @ (ns # nsets'))))" using b' by simp
  moreover have "map shape (ns # nsets') = map shape (ms # mss)" using c c' by simp
  moreover have "fst ` set (mapping st')
       = fst ` set (mapping st) \<union> member_id ` set (concat (map members (ms # mss)))"
    using d d' by auto
  ultimately show ?case by blast
qed

lemma copy_rounds_inv:
  "fold_err (copy_member_sets Mo nm) js (M, st) = Inr (M', st') \<Longrightarrow>
   member_sets M = old @ nsets \<Longrightarrow> pass_inv st (concat (map members nsets)) \<Longrightarrow>
   \<exists>nsets'. member_sets M' = old @ nsets @ nsets' \<and>
     pass_inv st' (concat (map members (nsets @ nsets'))) \<and>
     map shape nsets' = concat (replicate (length js) (map shape (member_sets Mo))) \<and>
     fst ` set (mapping st')
       = fst ` set (mapping st) \<union> (if js = [] then {} else member_id ` set (member_walk Mo))"
proof (induction js arbitrary: M st nsets)
  case Nil
  then show ?case by simp
next
  case (Cons j js)
  from Cons.prems(1) obtain M1 st1 where
    0: "copy_member_sets Mo nm j (M, st) = Inr (M1, st1)"
    and 2: "fold_err (copy_member_sets Mo nm) js (M1, st1) = Inr (M', st')"
    by (auto split: sum.splits)
  from 0 have 1: "fold_err (copy_member_set j nm) (member_sets Mo) (M, st) = Inr (M1, st1)"
    by (simp add: copy_member_sets_def get_all_member_sets_def)
  from copy_sets_inv [OF 1 Cons.prems(2,3)] obtain ns1 where
    a: "member_sets M1 = old @ (nsets @ ns1)"
    and b: "pass_inv st1 (concat (map members (nsets @ ns1)))"
    and c: "map shape ns1 = map shape (member_sets Mo)"
    and d: "fst ` set (mapping st1)
       = fst ` set (mapping st) \<union> member_id ` set (member_walk Mo)"
    unfolding member_walk_def by auto
  from Cons.IH [OF 2 a b] obtain ns2 where
    a': "member_sets M' = old @ (nsets @ ns1) @ ns2"
    and b': "pass_inv st' (concat (map members ((nsets @ ns1) @ ns2)))"
    and c': "map shape ns2 = concat (replicate (length js) (map shape (member_sets Mo)))"
    and d': "fst ` set (mapping st')
       = fst ` set (mapping st1) \<union> (if js = [] then {} else member_id ` set (member_walk Mo))"
    by blast
  have "member_sets M' = old @ nsets @ (ns1 @ ns2)" using a' by simp
  moreover have "pass_inv st' (concat (map members (nsets @ (ns1 @ ns2))))" using b' by simp
  moreover have "map shape (ns1 @ ns2)
      = concat (replicate (length (j # js)) (map shape (member_sets Mo)))"
    using c c' by simp
  moreover have "fst ` set (mapping st')
       = fst ` set (mapping st) \<union>
         (if j # js = [] then {} else member_id ` set (member_walk Mo))"
    using d d' by auto
  ultimately show ?case by blast
qed

lemma copy_member_set_fails:
  assumes "good_keys nm i ids" "set (end_node_ids (members ms)) \<subseteq> ids"
    "first_dangling ids (members ms) = Some r"
  shows "copy_member_set i nm ms (M, st)
         = Inl (KeyError_tuple [real (node_id r), real_of_int i])"
  using copy_members_fails [OF assms, of "[]" st] by (simp add: copy_member_set_def)

lemma copy_member_set_succeeds:
  assumes "good_keys nm i ids" "set (end_node_ids (members ms)) \<subseteq> ids"
    "first_dangling ids (members ms) = None"
  shows "\<exists>M' st'. copy_member_set i nm ms (M, st) = Inr (M', st')"
proof -
  from copy_members_succeeds [OF assms, of "[]" st] obtain acc' st1 where
    "copy_members i nm (members ms) [] st = Inr (acc', st1)" by blast
  then show ?thesis by (simp add: copy_member_set_def MemberSet_def)
qed

lemma end_node_ids_append: "end_node_ids (xs @ ys) = end_node_ids xs @ end_node_ids ys"
  by (simp add: end_node_ids_def)

lemma copy_sets_fails:
  "good_keys nm i ids \<Longrightarrow> set (end_node_ids (concat (map members mss))) \<subseteq> ids \<Longrightarrow>
   first_dangling ids (concat (map members mss)) = Some r \<Longrightarrow>
   fold_err (copy_member_set i nm) mss (M, st)
     = Inl (KeyError_tuple [real (node_id r), real_of_int i])"
proof (induction mss arbitrary: M st)
  case Nil
  then show ?case by simp
next
  case (Cons ms mss)
  from Cons.prems(2) have e1: "set (end_node_ids (members ms)) \<subseteq> ids"
    and e2: "set (end_node_ids (concat (map members mss))) \<subseteq> ids"
    by (simp_all add: end_node_ids_append)
  show ?case
  proof (cases "first_dangling ids (members ms)")
    case None
    from copy_member_set_succeeds [OF Cons.prems(1) e1 None, of M st] obtain M1 st1
      where 1: "copy_member_set i nm ms (M, st) = Inr (M1, st1)" by blast
    from None Cons.prems(3) have "first_dangling ids (concat (map members mss)) = Some r"
      by (simp add: first_dangling_append)
    from Cons.IH [OF Cons.prems(1) e2 this] 1 show ?thesis by simp
  next
    case (Some r')
    with Cons.prems(3) have "r' = r" by (simp add: first_dangling_append)
    with Some copy_member_set_fails [OF Cons.prems(1) e1] show ?thesis by simp
  qed
qed

lemma copy_sets_succeeds:
  "good_keys nm i ids \<Longrightarrow> set (end_node_ids (concat (map members mss))) \<subseteq> ids \<Longrightarrow>
   first_dangling ids (concat (map members mss)) = None \<Longrightarrow>
   \<exists>M' st'. fold_err (copy_member_set i nm) mss (M, st) = Inr (M', st')"
proof (induction mss arbitrary: M st)
  case Nil
  then show ?case by simp
next
  case (Cons ms mss)
  from Cons.prems(2) have e1: "set (end_node_ids (members ms)) \<subseteq> ids"
    and e2: "set (end_node_ids (concat (map members mss))) \<subseteq> ids"
    by (simp_all add: end_node_ids_append)
  from Cons.prems(3) have n1: "first_dangling ids (members ms) = None"
    and n2: "first_dangling ids (concat (map members mss)) = None"
    by (auto simp: first_dangling_append split: option.splits)
  from copy_member_set_succeeds [OF Cons.prems(1) e1 n1, of M st] obtain M1 st1
    where 1: "copy_member_set i nm ms (M, st) = Inr (M1, st1)" by blast
  from Cons.IH [OF Cons.prems(1) e2 n2, of M1 st1] 1 show ?case by simp
qed

lemma copy_rounds_fails:
  assumes "good_keys nm j ids" "set (end_node_ids (member_walk Mo)) \<subseteq> ids"
    "first_dangling ids (member_walk Mo) = Some r"
  shows "fold_err (copy_member_sets Mo nm) (j # js) (M, st)
         = Inl (KeyError_tuple [real (node_id r), real_of_int j])"
proof -
  have "copy_member_sets Mo nm j (M, st)
      = Inl (KeyError_tuple [real (node_id r), real_of_int j])"
    unfolding copy_member_sets_def get_all_member_sets_def
    using assms by (intro copy_sets_fails) (simp_all add: member_walk_def)
  then show ?thesis by simp
qed

lemma copy_rounds_succeeds:
  "\<forall>j\<in>set js. good_keys nm j ids \<Longrightarrow> set (end_node_ids (member_walk Mo)) \<subseteq> ids \<Longrightarrow>
   first_dangling ids (member_walk Mo) = None \<Longrightarrow>
   \<exists>M' st'. fold_err (copy_member_sets Mo nm) js (M, st) = Inr (M', st')"
proof (induction js arbitrary: M st)
  case Nil
  then show ?case by simp
next
  case (Cons j js)
  from Cons.prems(1) have g: "good_keys nm j ids" and gs: "\<forall>j\<in>set js. good_keys nm j ids"
    by simp_all
  have "\<exists>M1 st1. copy_member_sets Mo nm j (M, st) = Inr (M1, st1)"
    unfolding copy_member_sets_def get_all_member_sets_def
    using g Cons.prems(2,3) by (intro copy_sets_succeeds) (simp_all add: member_walk_def)
  then obtain M1 st1 where 1: "copy_member_sets Mo nm j (M, st) = Inr (M1, st1)" by blast
  from Cons.IH [OF gs Cons.prems(2,3), of M1 st1] 1 show ?case by simp
qed

lemma first_duplicate_resolved:
  assumes "\<forall>l\<in>snd ` set mm. l \<noteq> []"
  shows "first_duplicate mm r = Inr (resolved mm (Some r))"
proof (cases "map_of mm r")
  case None
  then show ?thesis by (simp add: first_duplicate_def resolved_def)
next
  case (Some l)
  then have "(r, l) \<in> set mm" by (rule map_of_SomeD)
  with assms have "l \<noteq> []" by force
  then obtain x xs where "l = x # xs" by (cases l) auto
  with Some show ?thesis by (simp add: first_duplicate_def resolved_def)
qed

lemma resolve_reference_step:
  assumes "\<forall>l\<in>snd ` set mm. l \<noteq> []"
  shows "resolve_reference mm n st = Inr (st(n := map_option (rewired mm) (st n)))"
proof (cases "st n")
  case None
  then have "st(n := map_option (rewired mm) (st n)) = st" by auto
  with None show ?thesis by (simp add: resolve_reference_def)
next
  case (Some m)
  show ?thesis
  proof (cases "reference_member m")
    case None
    then have "rewired mm m = m" by (simp add: rewired_def resolved_def)
    with Some have "st(n := map_option (rewired mm) (st n)) = st" by auto
    with Some None show ?thesis by (simp add: resolve_reference_def)
  next
    case (Some r)
    with \<open>st n = Some m\<close> first_duplicate_resolved [OF assms, of r] show ?thesis
      by (simp add: resolve_reference_def rewired_def)
  qed
qed

lemma resolve_fold:
  "\<forall>l\<in>snd ` set mm. l \<noteq> [] \<Longrightarrow> distinct ns \<Longrightarrow>
   fold_err (resolve_reference mm) ns st
   = Inr (\<lambda>n. if n \<in> set ns then map_option (rewired mm) (st n) else st n)"
proof (induction ns arbitrary: st)
  case Nil
  then show ?case by simp
next
  case (Cons n ns)
  let ?st1 = "st(n := map_option (rewired mm) (st n))"
  from Cons.prems(2) have n: "n \<notin> set ns" and d: "distinct ns" by simp_all
  have "fold_err (resolve_reference mm) (n # ns) st = fold_err (resolve_reference mm) ns ?st1"
    by (simp add: resolve_reference_step [OF Cons.prems(1)])
  also have "\<dots> = Inr (\<lambda>k. if k \<in> set ns then map_option (rewired mm) (?st1 k) else ?st1 k)"
    by (rule Cons.IH [OF Cons.prems(1) d])
  also have "(\<lambda>k. if k \<in> set ns then map_option (rewired mm) (?st1 k) else ?st1 k)
      = (\<lambda>k. if k \<in> set (n # ns) then map_option (rewired mm) (st k) else st k)"
    using n by (auto simp: fun_eq_iff)
  finally show ?case .
qed

lemma fold_add_member_set_FERS:
  "fold (\<lambda>ms m. add_member_set m [ms]) mss FERS = FERS\<lparr>member_sets := mss\<rparr>"
  by (simp add: fold_add_member_set FERS_def)

lemma read_rewired:
  assumes "pass_inv st (concat (map members nsets))" "ns \<in> set nsets"
  shows "read_member_set
           (\<lambda>n. if n \<in> set (new_ids (mapping st))
                then map_option (rewired mm) (store st n) else store st n) ns
         = ns\<lparr>members := map (rewired mm) (members ns)\<rparr>"
proof -
  have "\<forall>m'\<in>set (members ns). store st (member_id m') = Some m' \<and>
          member_id m' \<in> set (new_ids (mapping st))"
    using assms unfolding pass_inv_def by auto
  then have "map (\<lambda>m. case (if member_id m \<in> set (new_ids (mapping st))
                then map_option (rewired mm) (store st (member_id m))
                else store st (member_id m)) of Some m' \<Rightarrow> m' | None \<Rightarrow> m) (members ns)
      = map (rewired mm) (members ns)"
    by (intro map_cong) auto
  then show ?thesis by (simp add: read_member_set_def)
qed

lemma shape_rewired:
  "shape (ns\<lparr>members := map (rewired mm) (members ns)\<rparr>) = reshape mm (shape ns)"
  by (simp add: shape_def reshape_def rewired_def)

lemma combined_pattern_unfold:
  assumes "fold (copy_nodes Mo v) [1..count - 1] (Map.empty, c) = (nm, c1)"
  shows "create_combined_model_pattern Mo count v c
      = (case fold_err (copy_member_sets Mo nm) [1..count - 1]
                (FERS\<lparr>member_sets := member_sets Mo\<rparr>,
                 \<lparr>ctr = c1, store = Map.empty, mapping = []\<rparr>) of
           Inl e \<Rightarrow> Inl e
         | Inr (combined_model', st) \<Rightarrow>
             (case resolve_references (mapping st) (store st) of
                Inl e \<Rightarrow> Inl e
              | Inr store' \<Rightarrow>
                  Inr (combined_model'\<lparr>member_sets :=
                         take (length (member_sets Mo)) (member_sets combined_model') @
                         map (read_member_set store')
                           (drop (length (member_sets Mo)) (member_sets combined_model'))\<rparr>,
                       ctr st)))"
  unfolding create_combined_model_pattern_def Let_def assms prod.case get_all_member_sets_def
    fold_add_member_set_FERS ..

lemma combined_pattern_rounds:
  assumes np: "fold (copy_nodes Mo v) [1..count - 1] (Map.empty, c) = (nm, c1)"
    and rounds: "fold_err (copy_member_sets Mo nm) [1..count - 1]
                (FERS\<lparr>member_sets := member_sets Mo\<rparr>,
                 \<lparr>ctr = c1, store = Map.empty, mapping = []\<rparr>) = Inr (M1, st1)"
  shows "\<exists>M' nsets mm.
           create_combined_model_pattern Mo count v c = Inr (M', ctr st1) \<and>
           member_sets M' = member_sets Mo @ nsets \<and>
           map shape nsets
             = map (reshape mm)
                 (concat (replicate (length [1..count - 1]) (map shape (member_sets Mo)))) \<and>
           fst ` set mm
             = (if [1..count - 1] = [] then {} else member_id ` set (member_walk Mo))"
proof -
  let ?M0 = "FERS\<lparr>member_sets := member_sets Mo\<rparr>"
  let ?st0 = "\<lparr>ctr = c1, store = Map.empty, mapping = []\<rparr>"
  have m0: "member_sets ?M0 = member_sets Mo @ []" by simp
  have i0: "pass_inv ?st0 (concat (map members []))" by (simp add: pass_inv_def new_ids_def)
  from copy_rounds_inv [OF rounds m0 i0] obtain nsets where
    a: "member_sets M1 = member_sets Mo @ nsets"
    and b: "pass_inv st1 (concat (map members nsets))"
    and sh: "map shape nsets
        = concat (replicate (length [1..count - 1]) (map shape (member_sets Mo)))"
    and k: "fst ` set (mapping st1)
        = (if [1..count - 1] = [] then {} else member_id ` set (member_walk Mo))"
    by auto
  from b have ne: "\<forall>l\<in>snd ` set (mapping st1). l \<noteq> []"
    and d: "distinct (new_ids (mapping st1))" unfolding pass_inv_def by simp_all
  let ?store' = "\<lambda>n. if n \<in> set (new_ids (mapping st1))
      then map_option (rewired (mapping st1)) (store st1 n) else store st1 n"
  let ?M' = "M1\<lparr>member_sets := member_sets Mo @ map (read_member_set ?store') nsets\<rparr>"
  have res: "resolve_references (mapping st1) (store st1) = Inr ?store'"
    unfolding resolve_references_def
    using resolve_fold [OF ne, of "new_ids (mapping st1)" "store st1"] d
    by (simp add: new_ids_def)
  have rd: "map (read_member_set ?store') nsets
      = map (\<lambda>ns. ns\<lparr>members := map (rewired (mapping st1)) (members ns)\<rparr>) nsets"
    by (intro map_cong refl read_rewired [OF b])
  have 1: "create_combined_model_pattern Mo count v c = Inr (?M', ctr st1)"
    unfolding combined_pattern_unfold [OF np] rounds sum.case prod.case res a by simp
  have 2: "member_sets ?M' = member_sets Mo @ map (read_member_set ?store') nsets" by simp
  have "map shape (map (read_member_set ?store') nsets)
      = map (reshape (mapping st1)) (map shape nsets)"
    unfolding rd by (simp add: shape_rewired)
  then have 3: "map shape (map (read_member_set ?store') nsets)
      = map (reshape (mapping st1))
          (concat (replicate (length [1..count - 1]) (map shape (member_sets Mo))))"
    unfolding sh .
  from 1 2 3 k show ?thesis by blast
qed

lemma combined_pattern_Inr:
  assumes "create_combined_model_pattern Mo count v c = Inr (M', c')"
  shows "\<exists>nsets mm.
           member_sets M' = member_sets Mo @ nsets \<and>
           map shape nsets
             = map (reshape mm)
                 (concat (replicate (length [1..count - 1]) (map shape (member_sets Mo)))) \<and>
           fst ` set mm
             = (if [1..count - 1] = [] then {} else member_id ` set (member_walk Mo))"
proof -
  obtain nm c1 where np: "fold (copy_nodes Mo v) [1..count - 1] (Map.empty, c) = (nm, c1)"
    by (cases "fold (copy_nodes Mo v) [1..count - 1] (Map.empty, c)")
  let ?M0 = "FERS\<lparr>member_sets := member_sets Mo\<rparr>"
  let ?st0 = "\<lparr>ctr = c1, store = Map.empty, mapping = []\<rparr>"
  obtain M1 st1 where
    rounds: "fold_err (copy_member_sets Mo nm) [1..count - 1] (?M0, ?st0) = Inr (M1, st1)"
  proof (cases "fold_err (copy_member_sets Mo nm) [1..count - 1] (?M0, ?st0)")
    case (Inl e)
    with assms combined_pattern_unfold [OF np] show ?thesis by simp
  next
    case (Inr p)
    then show ?thesis using that by (cases p) simp
  qed
  from combined_pattern_rounds [OF np rounds] assms show ?thesis by auto
qed

lemma map_eq_list_all2: "map f xs = map g ys \<Longrightarrow> list_all2 (\<lambda>x y. f x = g y) xs ys"
  by (simp add: list_all2_conv_all_nth list_eq_iff_nth_eq)

lemma shape_lost_reference:
  assumes "shape ns = reshape mm (shape ms)" "fst ` set mm \<subseteq> ids"
  shows "list_all2 (lost_reference ids) (members ns) (members ms)"
proof -
  from assms(1) have "map reference_member (members ns)
      = map (\<lambda>m. resolved mm (reference_member m)) (members ms)"
    by (simp add: shape_def reshape_def)
  then have "list_all2 (\<lambda>m' m. reference_member m' = resolved mm (reference_member m))
      (members ns) (members ms)"
    by (rule map_eq_list_all2)
  moreover have "lost_reference ids m' m"
    if "reference_member m' = resolved mm (reference_member m)" for m' m
  proof (cases "reference_member m")
    case None
    then show ?thesis by (simp add: lost_reference_def)
  next
    case (Some x)
    show ?thesis
    proof (cases "x \<in> ids")
      case True
      with Some show ?thesis by (simp add: lost_reference_def)
    next
      case False
      with assms(2) have "map_of mm x = None" by (auto simp: map_of_None_keys)
      with that Some show ?thesis by (simp add: lost_reference_def resolved_def)
    qed
  qed
  ultimately show ?thesis by (rule list_all2_mono)
qed

text \<open>
  C2, amended. In \<^verbatim>\<open>create_combined_model_pattern\<close> with \<open>count \<ge> 2\<close>: when some
  member's \<^verbatim>\<open>reference_node\<close> is a node that is not the start or end node of any member of
  the model, the call fails with the \<^verbatim>\<open>KeyError\<close> of \<^verbatim>\<open>node_mapping\<close>, whose key is the
  id of the first such reference node with the copy index 1. When there is no such
  reference node the call returns, also when a \<^verbatim>\<open>reference_member\<close> is not a member of the
  model: every duplicate of a member with such a \<^verbatim>\<open>reference_member\<close> refers to no member
  (\<^verbatim>\<open>None\<close>), and nothing is raised.
\<close>

theorem dangling_node_raises_dangling_member_is_dropped:
  assumes "2 \<le> count"
  shows "(first_dangling (node_id ` set (get_all_nodes M)) (member_walk M) = Some r \<longrightarrow>
            create_combined_model_pattern M count v c
            = Inl (KeyError_tuple [real (node_id r), 1])) \<and>
         (first_dangling (node_id ` set (get_all_nodes M)) (member_walk M) = None \<longrightarrow>
            (\<exists>M' c'. create_combined_model_pattern M count v c = Inr (M', c') \<and>
               list_all2 (list_all2 (lost_reference (member_id ` set (member_walk M))))
                 (map members (drop (length (member_sets M)) (member_sets M')))
                 (concat (replicate (nat (count - 1)) (map members (member_sets M))))))"
proof -
  let ?ids = "node_id ` set (get_all_nodes M)"
  obtain nm c1 where np: "fold (copy_nodes M v) [1..count - 1] (Map.empty, c) = (nm, c1)"
    by (cases "fold (copy_nodes M v) [1..count - 1] (Map.empty, c)")
  have good: "good_keys nm j ?ids" if "j \<in> set [1..count - 1]" for j
    unfolding good_keys_def using node_pass_dom [OF np] that by simp
  have ends: "set (end_node_ids (member_walk M)) \<subseteq> ?ids"
    by (simp add: node_ids_of_model)
  from assms have js: "[1..count - 1] = 1 # [2..count - 1]"
    by (simp add: upto_rec1)
  let ?M0 = "FERS\<lparr>member_sets := member_sets M\<rparr>"
  let ?st0 = "\<lparr>ctr = c1, store = Map.empty, mapping = []\<rparr>"
  show ?thesis
  proof (intro conjI impI)
    assume fd: "first_dangling ?ids (member_walk M) = Some r"
    have g1: "good_keys nm 1 ?ids" by (rule good) (simp add: js)
    have "fold_err (copy_member_sets M nm) [1..count - 1] (?M0, ?st0)
        = Inl (KeyError_tuple [real (node_id r), real_of_int 1])"
      unfolding js by (rule copy_rounds_fails [OF g1 ends fd])
    then show "create_combined_model_pattern M count v c
            = Inl (KeyError_tuple [real (node_id r), 1])"
      unfolding combined_pattern_unfold [OF np] by simp
  next
    assume fd: "first_dangling ?ids (member_walk M) = None"
    have "\<forall>j\<in>set [1..count - 1]. good_keys nm j ?ids" using good by blast
    from copy_rounds_succeeds [OF this ends fd, of ?M0 ?st0] obtain M1 st1 where
      rounds: "fold_err (copy_member_sets M nm) [1..count - 1] (?M0, ?st0) = Inr (M1, st1)"
      by blast
    from combined_pattern_rounds [OF np rounds] obtain M' nsets mm where
      1: "create_combined_model_pattern M count v c = Inr (M', ctr st1)"
      and 2: "member_sets M' = member_sets M @ nsets"
      and 3: "map shape nsets
             = map (reshape mm)
                 (concat (replicate (length [1..count - 1]) (map shape (member_sets M))))"
      and 4: "fst ` set mm
             = (if [1..count - 1] = [] then {} else member_id ` set (member_walk M))"
      by blast
    let ?olds = "concat (replicate (nat (count - 1)) (member_sets M))"
    from 3 have "map shape nsets = map (\<lambda>ms. reshape mm (shape ms)) ?olds"
      by (simp add: map_concat map_replicate comp_def)
    then have "list_all2 (\<lambda>ns ms. shape ns = reshape mm (shape ms)) nsets ?olds"
      by (rule map_eq_list_all2)
    moreover from 4 have "fst ` set mm \<subseteq> member_id ` set (member_walk M)"
      by (simp split: if_splits)
    ultimately have "list_all2
        (\<lambda>ns ms. list_all2 (lost_reference (member_id ` set (member_walk M)))
                   (members ns) (members ms)) nsets ?olds"
      by (auto elim!: list_all2_mono intro: shape_lost_reference)
    then have "list_all2 (list_all2 (lost_reference (member_id ` set (member_walk M))))
        (map members nsets) (map members ?olds)"
      by (simp add: list_all2_map1 list_all2_map2)
    then have "list_all2 (list_all2 (lost_reference (member_id ` set (member_walk M))))
                 (map members (drop (length (member_sets M)) (member_sets M')))
                 (concat (replicate (nat (count - 1)) (map members (member_sets M))))"
      by (simp add: 2 map_concat map_replicate)
    with 1 show "\<exists>M' c'. create_combined_model_pattern M count v c = Inr (M', c') \<and>
               list_all2 (list_all2 (lost_reference (member_id ` set (member_walk M))))
                 (map members (drop (length (member_sets M)) (member_sets M')))
                 (concat (replicate (nat (count - 1)) (map members (member_sets M))))"
      by blast
  qed
qed

lemma fold_translate_node:
  "fold (translate_node v) ns (m, c) = (m', c') \<Longrightarrow>
   (\<forall>k. m' k \<noteq> None \<longleftrightarrow> m k \<noteq> None \<or> k \<in> node_id ` set ns)"
proof (induction ns arbitrary: m c)
  case Nil
  then show ?case by simp
next
  case (Cons n ns)
  obtain m1 c1 where 1: "translate_node v n (m, c) = (m1, c1)"
    by (cases "translate_node v n (m, c)")
  then have m1: "\<forall>k. m1 k \<noteq> None \<longleftrightarrow> m k \<noteq> None \<or> k = node_id n"
    by (auto simp: translate_node_def Node_def)
  from Cons.prems 1 have "fold (translate_node v) ns (m1, c1) = (m', c')" by simp
  from Cons.IH [OF this] m1 show ?case by auto
qed

lemma rebuild_members_succeed:
  "set (end_node_ids ms) \<subseteq> {k. nm k \<noteq> None} \<Longrightarrow>
   \<exists>acc' c'. fold_err (rebuild_member nm) ms (acc, c) = Inr (acc', c')"
proof (induction ms arbitrary: acc c)
  case Nil
  then show ?case by simp
next
  case (Cons m ms)
  from Cons.prems obtain s e where se: "nm (node_id (start_node m)) = Some s"
    "nm (node_id (end_node m)) = Some e"
    by (auto simp: end_node_ids_def)
  from Cons.prems have rest: "set (end_node_ids ms) \<subseteq> {k. nm k \<noteq> None}"
    by (simp add: end_node_ids_def)
  from se obtain acc1 c1 where 1: "rebuild_member nm m (acc, c) = Inr (acc1, c1)"
    by (simp add: rebuild_member_def lookup_id_def Member_def)
  from Cons.IH [OF rest, of acc1 c1] 1 show ?case by simp
qed

lemma rebuild_sets:
  "set (end_node_ids (concat (map members mss))) \<subseteq> {k. nm k \<noteq> None} \<Longrightarrow>
   \<exists>M' c'. fold_err (rebuild_member_set D nm) mss (M, c) = Inr (M', c') \<and>
     map lengths (member_sets M')
       = map lengths (member_sets M) @ replicate (length mss) (default_L_y D, default_L_z D) \<and>
     map carried (member_sets M') = map carried (member_sets M) @ map carried mss"
proof (induction mss arbitrary: M c)
  case Nil
  then show ?case by simp
next
  case (Cons ms mss)
  from Cons.prems have e1: "set (end_node_ids (members ms)) \<subseteq> {k. nm k \<noteq> None}"
    and e2: "set (end_node_ids (concat (map members mss))) \<subseteq> {k. nm k \<noteq> None}"
    by (simp_all add: end_node_ids_append)
  from rebuild_members_succeed [OF e1, of "[]" c] obtain new_members c1 where
    1: "fold_err (rebuild_member nm) (members ms) ([], c) = Inr (new_members, c1)" by blast
  let ?ns = "\<lparr>member_set_id = member_set_id ms, members = new_members,
       classification = classification ms, L_y = default_L_y D, L_z = default_L_z D\<rparr>"
  let ?M1 = "M\<lparr>member_sets := member_sets M @ [?ns]\<rparr>"
  have 2: "rebuild_member_set D nm ms (M, c) = Inr (?M1, c1)"
    by (simp add: rebuild_member_set_def 1 MemberSet_def add_member_set_def)
  from Cons.IH [OF e2, of ?M1 c1] obtain M' c' where
    3: "fold_err (rebuild_member_set D nm) mss (?M1, c1) = Inr (M', c')"
    and 4: "map lengths (member_sets M')
       = map lengths (member_sets ?M1) @ replicate (length mss) (default_L_y D, default_L_z D)"
    and 5: "map carried (member_sets M') = map carried (member_sets ?M1) @ map carried mss"
    by blast
  have "fold_err (rebuild_member_set D nm) (ms # mss) (M, c) = Inr (M', c')"
    using 2 3 by simp
  moreover have "map lengths (member_sets M')
       = map lengths (member_sets M) @
         replicate (length (ms # mss)) (default_L_y D, default_L_z D)"
    using 4 by (simp add: lengths_def replicate_append_same)
  moreover have "map carried (member_sets M')
       = map carried (member_sets M) @ map carried (ms # mss)"
    using 5 by (simp add: carried_def)
  ultimately show ?case by blast
qed

lemma translate_model_lengths:
  "\<exists>M' c'. translate_model D M v c = Inr (M', c') \<and>
     map lengths (member_sets M')
       = replicate (length (member_sets M)) (default_L_y D, default_L_z D) \<and>
     map carried (member_sets M') = map carried (member_sets M)"
proof -
  obtain nm c1 where np: "fold (translate_node v) (get_all_nodes M) (Map.empty, c) = (nm, c1)"
    by (cases "fold (translate_node v) (get_all_nodes M) (Map.empty, c)")
  from fold_translate_node [OF np]
  have "{k. nm k \<noteq> None} = node_id ` set (get_all_nodes M)" by auto
  then have "set (end_node_ids (concat (map members (member_sets M)))) \<subseteq> {k. nm k \<noteq> None}"
    using node_ids_of_model [of M] by (simp add: member_walk_def)
  from rebuild_sets [OF this, of D FERS c1] show ?thesis
    by (simp add: translate_model_def np get_all_member_sets_def FERS_def)
qed

lemma shape_lengths: "shape ns = reshape mm (shape ms) \<Longrightarrow> lengths ns = lengths ms"
  by (simp add: shape_def reshape_def lengths_def)

lemma combined_pattern_lengths:
  assumes "create_combined_model_pattern M count v c = Inr (M', c')"
  shows "take (length (member_sets M)) (member_sets M') = member_sets M \<and>
         map lengths (drop (length (member_sets M)) (member_sets M'))
         = concat (replicate (nat (count - 1)) (map lengths (member_sets M)))"
proof -
  from combined_pattern_Inr [OF assms] obtain nsets mm where
    2: "member_sets M' = member_sets M @ nsets"
    and 3: "map shape nsets
             = map (reshape mm)
                 (concat (replicate (length [1..count - 1]) (map shape (member_sets M))))"
    by blast
  let ?olds = "concat (replicate (nat (count - 1)) (member_sets M))"
  from 3 have "map shape nsets = map (\<lambda>ms. reshape mm (shape ms)) ?olds"
    by (simp add: map_concat map_replicate comp_def)
  then have "list_all2 (\<lambda>ns ms. shape ns = reshape mm (shape ms)) nsets ?olds"
    by (rule map_eq_list_all2)
  then have "list_all2 (\<lambda>ns ms. lengths ns = lengths ms) nsets ?olds"
    by (rule list_all2_mono) (rule shape_lengths)
  then have "map lengths nsets = map lengths ?olds"
    by (simp add: list_all2_conv_all_nth list_eq_iff_nth_eq)
  then show ?thesis by (simp add: 2 map_concat map_replicate)
qed

text \<open>
  C9. \<^verbatim>\<open>translate_model\<close> always returns, and every member set of the model it returns
  has the default buckling lengths of \<^verbatim>\<open>MemberSet\<close>, whatever the lengths of the source
  set, while its \<^verbatim>\<open>member_set_id\<close> and its classification are those of the source set.
  A model that \<^verbatim>\<open>create_combined_model_pattern\<close> returns starts with the member sets of
  the original model, and the copies that follow have the \<open>L_y\<close> and \<open>L_z\<close> of their
  source sets, copy by copy.
\<close>

theorem buckling_lengths_dropped_by_translate_kept_by_pattern:
  "(\<exists>M' c'. translate_model D M v c = Inr (M', c') \<and>
      map lengths (member_sets M')
        = replicate (length (member_sets M)) (default_L_y D, default_L_z D) \<and>
      map carried (member_sets M') = map carried (member_sets M)) \<and>
   (create_combined_model_pattern M count sv c = Inr (M'', c'') \<longrightarrow>
      take (length (member_sets M)) (member_sets M'') = member_sets M \<and>
      map lengths (drop (length (member_sets M)) (member_sets M''))
        = concat (replicate (nat (count - 1)) (map lengths (member_sets M))))"
  using translate_model_lengths [of D M v c] combined_pattern_lengths [of M count sv c M'' c'']
  by blast

theorem buckling_lengths_dropped_by_translate_kept_by_pattern_witness:
  "create_combined_model_pattern portal 3 (10, 0, 0) frame_counters
     = Inr (portal_tripled, \<lparr>node_counter = 13, member_counter = 9, member_set_counter = 6\<rparr>) \<and>
   map lengths (member_sets portal) = [(Some 3, Some 4)] \<and>
   map lengths (drop 1 (member_sets portal_tripled)) = [(Some 3, Some 4), (Some 3, Some 4)] \<and>
   (\<exists>M' c'. translate_model \<lparr>default_L_y = Some 1, default_L_z = Some 2\<rparr> portal (10, 0, 0)
              frame_counters = Inr (M', c') \<and>
            map lengths (member_sets M') = [(Some 1, Some 2)])"
proof -
  note t = buckling_lengths_dropped_by_translate_kept_by_pattern [of "\<lparr>default_L_y = Some 1, default_L_z = Some 2\<rparr>" portal "(10, 0, 0)"
      frame_counters 3 "(10, 0, 0)" portal_tripled
      "\<lparr>node_counter = 13, member_counter = 9, member_set_counter = 6\<rparr>"]
  have p: "member_sets portal = [set_1]" by (simp add: portal_def FERS_def)
  have l: "lengths set_1 = (Some 3, Some 4)" by (simp add: lengths_def set_1_def)
  from t portal_three_copies
  have "map lengths (drop (length (member_sets portal)) (member_sets portal_tripled))
        = concat (replicate (nat (3 - 1)) (map lengths (member_sets portal)))"
    by blast
  then have a: "map lengths (drop 1 (member_sets portal_tripled))
      = [(Some 3, Some 4), (Some 3, Some 4)]"
    by (simp add: p l numeral_2_eq_2)
  from t have "\<exists>M' c'. translate_model \<lparr>default_L_y = Some 1, default_L_z = Some 2\<rparr> portal
       (10, 0, 0) frame_counters = Inr (M', c') \<and>
      map lengths (member_sets M')
        = replicate (length (member_sets portal))
            (default_L_y \<lparr>default_L_y = Some 1, default_L_z = Some 2\<rparr>,
             default_L_z \<lparr>default_L_y = Some 1, default_L_z = Some 2\<rparr>)"
    by blast
  then have b: "\<exists>M' c'. translate_model \<lparr>default_L_y = Some 1, default_L_z = Some 2\<rparr> portal
       (10, 0, 0) frame_counters = Inr (M', c') \<and>
      map lengths (member_sets M') = [(Some 1, Some 2)]"
    by (simp add: p)
  from a b portal_three_copies show ?thesis by (simp add: p l)
qed

lemma column_walk: "member_walk column = [member_4]"
  by (simp add: member_walk_def column_def set_3_def FERS_def)

lemma beams_walk: "member_walk beams = [member_2, member_3]"
  by (simp add: member_walk_def beams_def set_2_def FERS_def)

theorem dangling_node_raises_dangling_member_is_dropped_witness:
  "(2::int) \<le> 2 \<and>
   first_dangling (node_id ` set (get_all_nodes column)) (member_walk column) = Some node_c \<and>
   create_combined_model_pattern column 2 (10, 0, 0) frame_counters
     = Inl (KeyError_tuple [3, 1]) \<and>
   first_dangling (node_id ` set (get_all_nodes beams)) (member_walk beams) = None \<and>
   reference_member member_2 = Some 1 \<and>
   1 \<notin> member_id ` set (member_walk beams) \<and>
   (\<exists>M' c'. create_combined_model_pattern beams 2 (10, 0, 0) frame_counters = Inr (M', c') \<and>
      list_all2 (list_all2 (lost_reference (member_id ` set (member_walk beams))))
        (map members (drop 1 (member_sets M'))) [ [member_2, member_3]])"
proof -
  have h: "(2::int) \<le> 2" by simp
  have d1: "first_dangling (node_id ` set (get_all_nodes column)) (member_walk column)
      = Some node_c"
    by (simp add: column_nodes column_walk member_4_def plain_member_def node_a_def node_b_def
          node_c_def)
  have d2: "first_dangling (node_id ` set (get_all_nodes beams)) (member_walk beams) = None"
    by (simp add: beams_nodes beams_walk member_2_def member_3_def plain_member_def)
  have m: "reference_member member_2 = Some 1" "1 \<notin> member_id ` set (member_walk beams)"
    by (simp_all add: beams_walk member_2_def member_3_def plain_member_def)
  have s: "member_sets beams = [set_2]" "members set_2 = [member_2, member_3]"
    by (simp_all add: beams_def FERS_def set_2_def)
  from dangling_node_raises_dangling_member_is_dropped [OF h, of column node_c "(10, 0, 0)" frame_counters] d1
  have a: "create_combined_model_pattern column 2 (10, 0, 0) frame_counters
     = Inl (KeyError_tuple [3, 1])"
    by (simp add: node_c_def)
  from dangling_node_raises_dangling_member_is_dropped [OF h, of beams node_c "(10, 0, 0)" frame_counters] d2
  have b: "\<exists>M' c'. create_combined_model_pattern beams 2 (10, 0, 0) frame_counters
        = Inr (M', c') \<and>
      list_all2 (list_all2 (lost_reference (member_id ` set (member_walk beams))))
        (map members (drop 1 (member_sets M'))) [ [member_2, member_3]]"
    by (simp add: s)
  from h d1 d2 m a b show ?thesis by blast
qed

text \<open>
  C2 as it is stated fails on the model \<open>beams\<close>: \<open>member_2\<close> refers to member 1, which
  is not in the model. The call returns a model, and the duplicate of \<open>member_2\<close> has
  \<^verbatim>\<open>reference_member = None\<close>.
\<close>

theorem dangling_reference_member_is_set_to_none:
  "create_combined_model_pattern beams 2 (10, 0, 0) frame_counters
     = Inr (beams_doubled, \<lparr>node_counter = 8, member_counter = 7, member_set_counter = 5\<rparr>) \<and>
   map member_id (member_walk beams) = [2, 3] \<and>
   map reference_member (member_walk beams) = [Some 1, None] \<and>
   map (map reference_member) (map members (member_sets beams_doubled))
     = [ [Some 1, None], [None, None]]"
  by (simp add: beams_two_copies beams_walk beams_doubled_def FERS_def copy_of_simps set_2_def
        member_2_def member_3_def plain_member_def)

end
